theory Spec2Isabelle
  imports Main "HOL-Library.Sublist"
begin

section \<open>Strings and the Python library\<close>

text \<open>
  A Python \<open>str\<close> is a sequence of Unicode code points: \<open>ustr\<close>, a list of integers
  (what \<open>ord\<close> gives for each character). The string literals of the source are ASCII and are written as \<open>string\<close>;
  \<open>ascii\<close> gives the code points of one. The texts that the program builds from its
  own literals only (the reasons) and the texts that it never inspects (message ids,
  exception texts) stay \<open>string\<close>. The test \<open>p in s\<close> of Python is the
  contiguous-substring relation \<open>sublist p s\<close>.
\<close>

type_synonym ustr = "int list"

definition ascii :: "string \<Rightarrow> ustr" where
  "ascii s = map of_char s"

text \<open>
  A naive \<open>datetime\<close> (one without time zone) is modelled by its position on its own
  calendar: the number of seconds between \<open>1970-01-01 00:00:00\<close> and its reading.
  Two naive datetimes compare as these numbers do.
\<close>

type_synonym naive = int

text \<open>
  What the program takes from the Python library and does not define itself is a
  parameter of the model, the record \<open>pylib\<close>.

  The three functions that \<open>parse_email_date\<close> calls. The tuple of \<open>parsedate_tz\<close> is
  reduced to the fields that are not constant: year, month, day, hour, minute, second
  and the zone offset in seconds (\<open>None\<close> when the string names no zone). For
  \<open>parsedate_tz\<close> the value \<open>None\<close> stands for the Python \<open>None\<close> and for an
  exception; for \<open>mktime_tz\<close> and \<open>fromtimestamp\<close> it stands for an exception. All of
  these end in \<open>return None\<close> in the source.

  The two tables of the Unicode character database that \<open>str.lower()\<close> reads:
  \<open>tolower_full c\<close> is the full lower-case mapping of the code point \<open>c\<close> (one to three
  code points; it is consulted for \<open>c\<close> outside ASCII only), and \<open>final_sigma s i\<close> says
  whether the capital sigma at position \<open>i\<close> of \<open>s\<close> stands at the end of a word.
\<close>

type_synonym tm = "int \<times> int \<times> int \<times> int \<times> int \<times> int \<times> int option"

record pylib =
  parsedate_tz :: "string \<Rightarrow> tm option"
  mktime_tz :: "tm \<Rightarrow> int option"
  fromtimestamp :: "int \<Rightarrow> naive option"
  tolower_full :: "int \<Rightarrow> ustr"
  final_sigma :: "ustr \<Rightarrow> nat \<Rightarrow> bool"

text \<open>
  \<open>str.lower()\<close> as CPython computes it, one code point after the other: the capital
  sigma \<open>U+03A3\<close> becomes the final small sigma \<open>U+03C2\<close> or the small sigma
  \<open>U+03C3\<close>, depending on its place in the word; an ASCII code point is mapped by
  \<open>ascii_lower\<close> (\<open>A\<close> .. \<open>Z\<close> to \<open>a\<close> .. \<open>z\<close>, every other one to itself); any
  other code point is replaced by its full lower-case mapping, which may be longer
  than one code point (\<open>U+0130\<close> gives \<open>i\<close> and \<open>U+0307\<close>) or an ASCII letter
  (\<open>U+212A\<close>, the Kelvin sign, gives \<open>k\<close>).
\<close>

definition ascii_lower :: "int \<Rightarrow> int" where
  "ascii_lower c = (if 65 \<le> c \<and> c \<le> 90 then c + 32 else c)"

definition lower_at :: "pylib \<Rightarrow> ustr \<Rightarrow> nat \<Rightarrow> ustr" where
  "lower_at lib s i =
     (let c = s ! i
      in if c = 931 then [if final_sigma lib s i then 962 else 963]
         else if c < 128 then [ascii_lower c]
         else tolower_full lib c)"

definition lower :: "pylib \<Rightarrow> ustr \<Rightarrow> ustr" where
  "lower lib s = concat (map (lower_at lib s) [0..<length s])"

text \<open>\<open>s.split(sep)\<close> for a separator of one character: never the empty list.\<close>

fun split_chr :: "'a \<Rightarrow> 'a list \<Rightarrow> 'a list list" where
  "split_chr sep [] = [[]]"
| "split_chr sep (c # cs) =
     (if c = sep then [] # split_chr sep cs
      else (c # hd (split_chr sep cs)) # tl (split_chr sep cs))"

section \<open>The rule lists\<close>

definition UNNECESSARY_PATTERNS :: "string list" where
  "UNNECESSARY_PATTERNS =
    [''noreply'', ''no-reply'', ''donotreply'', ''notification'', ''newsletter'',
     ''unsubscribe'', ''promotional'', ''marketing'', ''sale'', ''offer'', ''deal'',
     ''discount'', ''coupon'', ''survey'', ''feedback'', ''social.*notification'',
     ''linkedin.*invitation'', ''facebook.*notification'', ''twitter.*notification'',
     ''instagram.*notification'', ''spam'', ''advertisement'', ''promo'',
     ''alert.*account'', ''security.*alert'', ''backup.*complete'',
     ''system.*notification'', ''automated.*message'', ''digest'',
     ''weekly.*update'', ''monthly.*report'']"

definition UNNECESSARY_DOMAINS :: "string list" where
  "UNNECESSARY_DOMAINS =
    [''newsletters.com'', ''marketing.com'', ''promo.com'', ''noreply.com'',
     ''notifications.com'', ''alerts.com'', ''survey.com'', ''feedback.com'',
     ''mailchimp.com'', ''constantcontact.com'', ''sendgrid.net'', ''mailgun.org'']"

definition UNNECESSARY_SENDERS :: "string list" where
  "UNNECESSARY_SENDERS =
    [''newsletter'', ''marketing'', ''promo'', ''deals'', ''offers'', ''support'',
     ''team'', ''hello'', ''info'', ''updates'', ''notifications'']"

definition promo_keywords :: "string list" where
  "promo_keywords =
    [''sale'', ''discount'', ''offer'', ''deal'', ''coupon'', ''% off'', ''free shipping'']"

section \<open>The classifier: \<open>is_unnecessary_email_fast\<close>\<close>

text \<open>
  \<open>sender_domain\<close> and \<open>sender_name\<close> are the two local variables of the source: the
  last piece of \<open>sender_lower.split('@')\<close> (the empty string when there is no \<open>@\<close>)
  and the first piece (the whole string when there is no \<open>@\<close>). The code point
  of \<open>@\<close> is 64.
\<close>

definition sender_domain :: "ustr \<Rightarrow> ustr" where
  "sender_domain sender_lower =
     (if 64 \<in> set sender_lower then last (split_chr 64 sender_lower) else [])"

definition sender_name :: "ustr \<Rightarrow> ustr" where
  "sender_name sender_lower =
     (if 64 \<in> set sender_lower then hd (split_chr 64 sender_lower)
      else sender_lower)"

text \<open>
  Each \<open>for x in LIST: if cond(x): return ...\<close> of the source is \<open>find\<close>: the first
  element of the list, in list order, that satisfies the condition.
\<close>

definition is_unnecessary_email_fast ::
  "pylib \<Rightarrow> ustr \<Rightarrow> ustr \<Rightarrow> ustr \<Rightarrow> bool \<times> string" where
  "is_unnecessary_email_fast lib sender subject sender_full =
     (let sender_lower = lower lib sender;
          subject_lower = lower lib subject;
          sender_full_lower = lower lib sender_full
      in case find (\<lambda>pattern. sublist (ascii pattern) sender_lower
                      \<or> sublist (ascii pattern) subject_lower
                      \<or> sublist (ascii pattern) sender_full_lower) UNNECESSARY_PATTERNS of
           Some pattern \<Rightarrow> (True, ''Contains pattern: '' @ pattern)
         | None \<Rightarrow>
        (case find (\<lambda>domain. sublist (ascii domain) (sender_domain sender_lower)) UNNECESSARY_DOMAINS of
           Some domain \<Rightarrow> (True, ''Sender domain: '' @ domain)
         | None \<Rightarrow>
        (case find (\<lambda>keyword. sublist (ascii keyword) (sender_name sender_lower)) UNNECESSARY_SENDERS of
           Some keyword \<Rightarrow> (True, ''Sender name contains: '' @ keyword)
         | None \<Rightarrow>
        (case find (\<lambda>keyword. sublist (ascii keyword) subject_lower) promo_keywords of
           Some keyword \<Rightarrow> (True, ''Promotional keyword: '' @ keyword)
         | None \<Rightarrow> (False, ''Not identified as unnecessary'')))))"

text \<open>
  The sender address: \<open>re.search(r'<([^>]+)>', sender_full)\<close>. The search takes the
  leftmost \<open><\<close> that is followed by at least one character other than \<open>>\<close> and then by
  a \<open>>\<close>; group 1 is the text in between. \<open>angle_group\<close> is that search,
  \<open>None\<close> when the expression matches nowhere. The code points of \<open><\<close> and \<open>>\<close>
  are 60 and 62.
\<close>

fun angle_group :: "ustr \<Rightarrow> ustr option" where
  "angle_group [] = None"
| "angle_group (c # cs) =
     (if c = 60 \<and> takeWhile (\<lambda>x. x \<noteq> 62) cs \<noteq> []
          \<and> dropWhile (\<lambda>x. x \<noteq> 62) cs \<noteq> []
      then Some (takeWhile (\<lambda>x. x \<noteq> 62) cs)
      else angle_group cs)"

definition extract_sender :: "ustr \<Rightarrow> ustr" where
  "extract_sender sender_full =
     (case angle_group sender_full of Some g \<Rightarrow> g | None \<Rightarrow> sender_full)"

section \<open>Dates\<close>

text \<open>
  \<open>ymd_ordinal\<close> is \<open>datetime.date(y, m, d).toordinal()\<close>, and \<open>naive_datetime y m d\<close>
  the naive datetime of midnight on that day.
\<close>

definition is_leap :: "int \<Rightarrow> bool" where
  "is_leap y = (y mod 4 = 0 \<and> (y mod 100 \<noteq> 0 \<or> y mod 400 = 0))"

definition days_before_year :: "int \<Rightarrow> int" where
  "days_before_year y = (y - 1) * 365 + (y - 1) div 4 - (y - 1) div 100 + (y - 1) div 400"

definition days_before_month :: "int \<Rightarrow> int \<Rightarrow> int" where
  "days_before_month y m =
     [0, 31, 59, 90, 120, 151, 181, 212, 243, 273, 304, 334] ! nat (m - 1)
       + (if m > 2 \<and> is_leap y then 1 else 0)"

definition ymd_ordinal :: "int \<Rightarrow> int \<Rightarrow> int \<Rightarrow> int" where
  "ymd_ordinal y m d = days_before_year y + days_before_month y m + d"

definition naive_datetime :: "int \<Rightarrow> int \<Rightarrow> int \<Rightarrow> naive" where
  "naive_datetime y m d = (ymd_ordinal y m d - 719163) * 86400"

text \<open>\<open>self.cutoff_date = datetime.datetime(2025, 6, 1)\<close>: naive, midnight.\<close>

definition cutoff_date :: naive where
  "cutoff_date = naive_datetime 2025 6 1"

text \<open>\<open>parse_email_date\<close>: every failure of the library ends in \<open>return None\<close>.\<close>

definition parse_email_date :: "pylib \<Rightarrow> string \<Rightarrow> naive option" where
  "parse_email_date lib date_str =
     (if date_str = [] then None
      else case parsedate_tz lib date_str of
             None \<Rightarrow> None
           | Some parsed_date \<Rightarrow>
               (case mktime_tz lib parsed_date of
                  None \<Rightarrow> None
                | Some timestamp \<Rightarrow> fromtimestamp lib timestamp))"

text \<open>
  What the Python library does in these functions. \<open>calendar.timegm\<close> reads the fields
  as UTC and raises for a year outside 1..9999 or a month outside 1..12.
  \<open>email.utils.mktime_tz\<close> subtracts the zone offset from it, and falls back on the
  host's \<open>time.mktime\<close> when the string names no zone. \<open>datetime.fromtimestamp(t)\<close>
  without a zone argument gives the naive datetime that a clock on the host's wall shows
  at the instant \<open>t\<close>: \<open>t\<close> plus the host's offset from UTC at \<open>t\<close>; it raises when
  the year of that reading is outside 1..9999 (the host is taken to accept every
  timestamp within that range). The host's zone (\<open>utcoffset\<close>) and its
  \<open>time.mktime\<close> are parameters, as are the parser of date strings and the two
  Unicode tables.
\<close>

definition timegm :: "tm \<Rightarrow> int option" where
  "timegm t =
     (case t of (year, month, day, hour, minute, second, tz) \<Rightarrow>
        if 1 \<le> year \<and> year \<le> 9999 \<and> 1 \<le> month \<and> month \<le> 12
        then Some ((((ymd_ordinal year month 1 - 719163 + day - 1) * 24 + hour) * 60
                      + minute) * 60 + second)
        else None)"

definition py_mktime_tz :: "(tm \<Rightarrow> int option) \<Rightarrow> tm \<Rightarrow> int option" where
  "py_mktime_tz mktime t =
     (case t of (year, month, day, hour, minute, second, tz) \<Rightarrow>
        (case tz of
           None \<Rightarrow> mktime t
         | Some off \<Rightarrow> (case timegm t of None \<Rightarrow> None | Some g \<Rightarrow> Some (g - off))))"

definition py_fromtimestamp :: "(int \<Rightarrow> int) \<Rightarrow> int \<Rightarrow> naive option" where
  "py_fromtimestamp utcoffset t =
     (let reading = t + utcoffset t
      in if naive_datetime 1 1 1 \<le> reading \<and> reading < naive_datetime 9999 12 31 + 86400
         then Some reading else None)"

definition py_lib ::
  "(string \<Rightarrow> tm option) \<Rightarrow> (tm \<Rightarrow> int option) \<Rightarrow> (int \<Rightarrow> int) \<Rightarrow> (int \<Rightarrow> ustr)
     \<Rightarrow> (ustr \<Rightarrow> nat \<Rightarrow> bool) \<Rightarrow> pylib" where
  "py_lib parse mktime utcoffset tolower sigma =
     \<lparr>parsedate_tz = parse, mktime_tz = py_mktime_tz mktime,
      fromtimestamp = py_fromtimestamp utcoffset,
      tolower_full = tolower, final_sigma = sigma\<rparr>"

section \<open>The program state and the outside world\<close>

text \<open>
  A message id is an opaque token. A fetch reply carries what the scan reads from the
  headers: the decoded \<open>From\<close> value (\<open>sender_full\<close>), the decoded \<open>Subject\<close> and
  the raw \<open>Date\<close> value, each the empty string when the header is absent.
  \<open>FetchNotOK\<close> is a status other than \<open>OK\<close>; \<open>FetchRaises\<close> is an exception
  raised by the fetch or by the parsing of its answer, with the text of the exception.
\<close>

type_synonym msg_id = string

record headers =
  hdr_from :: ustr
  hdr_subject :: ustr
  hdr_date :: string

datatype fetch_reply = FetchOK headers | FetchNotOK | FetchRaises string

text \<open>
  One entry of \<open>batch_results\<close>: the dictionary with action \<open>delete\<close> (id, date,
  sender, subject, reason) or with action \<open>keep\<close> (id, reason).
\<close>

datatype result =
    Delete msg_id naive ustr ustr string
  | Keep msg_id string

fun result_id :: "result \<Rightarrow> msg_id" where
  "result_id (Delete i d sender subject reason) = i"
| "result_id (Keep i reason) = i"

text \<open>
  The calls that leave the program, in the order of their appearance in the source, and
  one ghost event, \<open>Classify\<close>, which records an invocation of the classifier with its
  three arguments. \<open>Input\<close> carries what the user typed (\<open>None\<close>: \<open>input\<close> raised).
\<close>

datatype event =
    Getpass | Logout | Open_ssl | Login | Select | Noop
  | Fetch msg_id | Store msg_id | Expunge
  | Input "ustr option"
  | Classify ustr ustr ustr

text \<open>
  The fields of \<open>FastGmailCleanup\<close> that the scan and the deletion use (\<open>mail\<close> is
  \<open>False\<close> when \<open>self.mail\<close> is \<open>None\<close>), the number of outside calls made so far
  (\<open>clock\<close>) and the list of events so far (\<open>trace\<close>).
\<close>

record state =
  mail :: bool
  stop_requested :: bool
  emails_to_delete :: "result list"
  deleted_count :: nat
  kept_count :: nat
  processed_count :: nat
  clock :: nat
  trace :: "event list"

text \<open>
  The object after \<open>__init__\<close> and a successful \<open>connect_to_gmail\<close>, before any
  outside call is counted.
\<close>

definition init_state :: state where
  "init_state =
     \<lparr>mail = True, stop_requested = False, emails_to_delete = [], deleted_count = 0,
      kept_count = 0, processed_count = 0, clock = 0, trace = []\<rparr>"

text \<open>
  The outside world answers the \<open>n\<close>-th outside call of the run: whether it raises
  (calls without a result), the reply to a fetch, what the user types. \<open>sigint n\<close>
  says that SIGINT is delivered while the \<open>n\<close>-th call is in progress; the handler of
  the program then sets \<open>stop_requested\<close> and the call goes on. Output and
  \<open>time.sleep\<close> are not modelled.
\<close>

record env =
  raises :: "nat \<Rightarrow> bool"
  fetch_reply :: "nat \<Rightarrow> fetch_reply"
  input_reply :: "nat \<Rightarrow> ustr option"
  sigint :: "nat \<Rightarrow> bool"

definition tick :: "env \<Rightarrow> event \<Rightarrow> state \<Rightarrow> state" where
  "tick env ev s =
     s\<lparr>stop_requested := stop_requested s \<or> sigint env (clock s),
       clock := clock s + 1,
       trace := trace s @ [ev]\<rparr>"

text \<open>A call without result: \<open>True\<close> when it raised.\<close>

definition call :: "env \<Rightarrow> event \<Rightarrow> state \<Rightarrow> bool \<times> state" where
  "call env ev s = (raises env (clock s), tick env ev s)"

text \<open>
  A method call on \<open>self.mail\<close>: when \<open>self.mail\<close> is \<open>None\<close> the attribute lookup
  raises and nothing is sent.
\<close>

definition mail_call :: "env \<Rightarrow> event \<Rightarrow> state \<Rightarrow> bool \<times> state" where
  "mail_call env ev s = (if mail s then call env ev s else (True, s))"

definition do_fetch :: "env \<Rightarrow> msg_id \<Rightarrow> state \<Rightarrow> fetch_reply \<times> state" where
  "do_fetch env email_id s =
     (if mail s then (fetch_reply env (clock s), tick env (Fetch email_id) s)
      else (FetchRaises ''NoneType object has no attribute fetch'', s))"

definition do_input :: "env \<Rightarrow> state \<Rightarrow> ustr option \<times> state" where
  "do_input env s = (input_reply env (clock s), tick env (Input (input_reply env (clock s))) s)"

section \<open>The connection: \<open>connect_to_gmail\<close>, \<open>reconnect_if_needed\<close>\<close>

text \<open>
  \<open>connect_try\<close> is the body of the \<open>try\<close> of one attempt (\<open>True\<close>: it reached
  \<open>return True\<close>), \<open>connect_except\<close> the handler's clean-up, \<open>connect_attempts\<close>
  the loop over \<open>range(max_retries)\<close> with \<open>max_retries = 3\<close>.
\<close>

definition connect_try :: "env \<Rightarrow> nat \<Rightarrow> state \<Rightarrow> bool \<times> state" where
  "connect_try env attempt s =
     (let (r0, s0) = (if attempt = 0 then call env Getpass s else (False, s)) in
      if r0 then (False, s0)
      else
        let s1 = (if mail s0 then snd (call env Logout s0) else s0);
            (r2, s2) = call env Open_ssl s1 in
        if r2 then (False, s2)
        else
          let (r3, s3) = call env Login (s2\<lparr>mail := True\<rparr>) in
          if r3 then (False, s3)
          else
            let (r4, s4) = call env Select s3 in
            if r4 then (False, s4) else (True, s4))"

definition connect_except :: "env \<Rightarrow> state \<Rightarrow> state" where
  "connect_except env s = (if mail s then (snd (call env Logout s))\<lparr>mail := False\<rparr> else s)"

fun connect_attempts :: "env \<Rightarrow> nat list \<Rightarrow> state \<Rightarrow> bool \<times> state" where
  "connect_attempts env [] s = (False, s)"
| "connect_attempts env (attempt # rest) s =
     (case connect_try env attempt s of
        (True, s1) \<Rightarrow> (True, s1)
      | (False, s1) \<Rightarrow>
          (let s2 = connect_except env s1
           in if attempt = 2 then (False, s2) else connect_attempts env rest s2))"

definition connect_to_gmail :: "env \<Rightarrow> state \<Rightarrow> bool \<times> state" where
  "connect_to_gmail env s = connect_attempts env [0, 1, 2] s"

definition reconnect_if_needed :: "env \<Rightarrow> state \<Rightarrow> bool \<times> state" where
  "reconnect_if_needed env s =
     (case mail_call env Noop s of
        (False, s1) \<Rightarrow> (True, s1)
      | (True, s1) \<Rightarrow> connect_to_gmail env s1)"

section \<open>The scan: \<open>process_email_batch\<close>, \<open>analyze_emails_fast\<close>\<close>

text \<open>
  \<open>handle_headers\<close> is the part of the \<open>try\<close> body that follows a fetch with status
  \<open>OK\<close>: sender extraction, date parsing, the date filter, the classifier.
\<close>

definition handle_headers :: "pylib \<Rightarrow> msg_id \<Rightarrow> headers \<Rightarrow> state \<Rightarrow> result \<times> state" where
  "handle_headers lib email_id h s =
     (let sender_full = hdr_from h;
          subject = hdr_subject h;
          date_str = hdr_date h;
          sender = extract_sender sender_full
      in case parse_email_date lib date_str of
           None \<Rightarrow> (Keep email_id ''too_recent_or_no_date'', s)
         | Some email_date \<Rightarrow>
             if email_date \<ge> cutoff_date then (Keep email_id ''too_recent_or_no_date'', s)
             else
               (let s1 = s\<lparr>trace := trace s @ [Classify sender subject sender_full]\<rparr>;
                    (is_unnecessary, reason) =
                      is_unnecessary_email_fast lib sender subject sender_full
                in if is_unnecessary
                   then (Delete email_id email_date sender_full subject reason, s1)
                   else (Keep email_id ''not_unnecessary'', s1)))"

text \<open>
  The retry loop of one message, over \<open>range(max_retries)\<close> with \<open>max_retries = 2\<close>:
  \<open>continue\<close> is the recursive call on the remaining attempts, \<open>break\<close> ends the
  loop. Every exception of the body is caught by the handler, whose two branches both
  continue.
\<close>

fun fetch_attempts :: "pylib \<Rightarrow> env \<Rightarrow> msg_id \<Rightarrow> nat list \<Rightarrow> state \<Rightarrow> result option \<times> state" where
  "fetch_attempts lib env email_id [] s = (None, s)"
| "fetch_attempts lib env email_id (attempt # rest) s =
     (case (if attempt > 0 then reconnect_if_needed env s else (True, s)) of
        (False, s1) \<Rightarrow> fetch_attempts lib env email_id rest s1
      | (True, s1) \<Rightarrow>
          (case do_fetch env email_id s1 of
             (FetchOK h, s2) \<Rightarrow>
               (case handle_headers lib email_id h s2 of (r, s3) \<Rightarrow> (Some r, s3))
           | (FetchNotOK, s2) \<Rightarrow>
               (if attempt < 2 - 1 then fetch_attempts lib env email_id rest s2
                else (None, s2))
           | (FetchRaises e, s2) \<Rightarrow> fetch_attempts lib env email_id rest s2))"

definition process_email :: "pylib \<Rightarrow> env \<Rightarrow> msg_id \<Rightarrow> state \<Rightarrow> result option \<times> state" where
  "process_email lib env email_id s = fetch_attempts lib env email_id [0, 1] s"

fun option_list :: "'a option \<Rightarrow> 'a list" where
  "option_list None = []"
| "option_list (Some x) = [x]"

fun process_email_loop ::
  "pylib \<Rightarrow> env \<Rightarrow> msg_id list \<Rightarrow> result list \<Rightarrow> state \<Rightarrow> result list \<times> state" where
  "process_email_loop lib env [] batch_results s = (batch_results, s)"
| "process_email_loop lib env (email_id # rest) batch_results s =
     (if stop_requested s then (batch_results, s)
      else case process_email lib env email_id s of
             (r, s1) \<Rightarrow> process_email_loop lib env rest (batch_results @ option_list r) s1)"

definition process_email_batch :: "pylib \<Rightarrow> env \<Rightarrow> msg_id list \<Rightarrow> state \<Rightarrow> result list \<times> state" where
  "process_email_batch lib env email_batch s = process_email_loop lib env email_batch [] s"

text \<open>\<open>fetch_email_headers_batch\<close>: the slices \<open>email_ids[i:i + batch_size]\<close>.\<close>

function fetch_email_headers_batch :: "'a list \<Rightarrow> nat \<Rightarrow> 'a list list" where
  "fetch_email_headers_batch email_ids batch_size =
     (if email_ids = [] \<or> batch_size = 0 then []
      else take batch_size email_ids
             # fetch_email_headers_batch (drop batch_size email_ids) batch_size)"
  by pat_completeness auto
termination
  by (relation "measure (\<lambda>(email_ids, batch_size). length email_ids)") auto

text \<open>The loop \<open>for result in batch_results\<close> of \<open>analyze_emails_fast\<close>.\<close>

fun consume_results :: "result list \<Rightarrow> state \<Rightarrow> state" where
  "consume_results [] s = s"
| "consume_results (r # rs) s =
     (let s1 = s\<lparr>processed_count := processed_count s + 1\<rparr>
      in case r of
           Delete i d sender subject reason \<Rightarrow>
             consume_results rs
               (s1\<lparr>emails_to_delete := emails_to_delete s1 @ [r],
                   deleted_count := deleted_count s1 + 1\<rparr>)
         | Keep i reason \<Rightarrow>
             consume_results rs (s1\<lparr>kept_count := kept_count s1 + 1\<rparr>))"

fun scan_batches :: "pylib \<Rightarrow> env \<Rightarrow> msg_id list list \<Rightarrow> state \<Rightarrow> state" where
  "scan_batches lib env [] s = s"
| "scan_batches lib env (batch # rest) s =
     (if stop_requested s then s
      else case process_email_batch lib env batch s of
             (batch_results, s1) \<Rightarrow> scan_batches lib env rest (consume_results batch_results s1))"

section \<open>The deletion: \<open>delete_emails_fast\<close>\<close>

record report =
  successful :: nat
  failed :: nat
  expunge_failed :: bool

fun delete_batch :: "env \<Rightarrow> result list \<Rightarrow> nat \<times> nat \<Rightarrow> state \<Rightarrow> (nat \<times> nat) \<times> state" where
  "delete_batch env [] (su, fa) s = ((su, fa), s)"
| "delete_batch env (email # rest) (su, fa) s =
     (case mail_call env (Store (result_id email)) s of
        (False, s1) \<Rightarrow> delete_batch env rest (su + 1, fa) s1
      | (True, s1) \<Rightarrow> delete_batch env rest (su, fa + 1) s1)"

fun delete_batches :: "env \<Rightarrow> result list list \<Rightarrow> nat \<times> nat \<Rightarrow> state \<Rightarrow> (nat \<times> nat) \<times> state" where
  "delete_batches env [] c s = (c, s)"
| "delete_batches env (batch # rest) c s =
     (case delete_batch env batch c s of (c1, s1) \<Rightarrow> delete_batches env rest c1 s1)"

definition delete_emails_fast :: "env \<Rightarrow> state \<Rightarrow> report \<times> state" where
  "delete_emails_fast env s =
     (case delete_batches env (fetch_email_headers_batch (emails_to_delete s) 50) (0, 0) s of
        ((su, fa), s1) \<Rightarrow>
          (case mail_call env Expunge s1 of
             (raised, s2) \<Rightarrow> (\<lparr>successful = su, failed = fa, expunge_failed = raised\<rparr>, s2)))"

section \<open>The report and the confirmation: \<open>show_analysis_results\<close>\<close>

text \<open>
  \<open>Raised\<close>: the call to \<open>input\<close> raised and the exception leaves the function.
\<close>

datatype completion = Returned | Raised

definition show_analysis_results ::
  "pylib \<Rightarrow> env \<Rightarrow> nat \<Rightarrow> bool \<Rightarrow> state \<Rightarrow> completion \<times> state" where
  "show_analysis_results lib env total_emails dry_run s =
     (if dry_run then (Returned, s)
      else if deleted_count s > 0 then
        (case do_input env s of
           (None, s1) \<Rightarrow> (Raised, s1)
         | (Some confirm, s1) \<Rightarrow>
             (if lower lib confirm = ascii ''yes'' then (Returned, snd (delete_emails_fast env s1))
              else (Returned, s1)))
      else (Returned, s))"

text \<open>
  \<open>analyze_emails_fast\<close>, from the list of ids that \<open>get_unread_emails_fast\<close> returned.
\<close>

definition analyze_emails_fast ::
  "pylib \<Rightarrow> env \<Rightarrow> msg_id list \<Rightarrow> bool \<Rightarrow> state \<Rightarrow> completion \<times> state" where
  "analyze_emails_fast lib env email_ids dry_run s =
     (if email_ids = [] then (Returned, s)
      else
        let s1 = s\<lparr>deleted_count := 0, kept_count := 0, emails_to_delete := [],
                   processed_count := 0, stop_requested := False\<rparr>;
            batches = fetch_email_headers_batch email_ids 100;
            s2 = scan_batches lib env batches s1
        in show_analysis_results lib env (length email_ids) dry_run s2)"

section \<open>Definitions that follow the specification\<close>

text \<open>
  The rule order of the classifier as the specification words it: four rule groups, the
  hits of each group kept in list order, the first group with a hit decides and its first
  hit is reported. The domain part of an address is the text after its last \<open>@\<close>, the
  local part the text before its first \<open>@\<close>. In \<open>classify_spec\<close> a fragment hits a
  text when it occurs in what \<open>str.lower()\<close> makes of the text.
\<close>

definition text_after_at :: "ustr \<Rightarrow> ustr" where
  "text_after_at s =
     (if 64 \<in> set s then rev (takeWhile (\<lambda>x. x \<noteq> 64) (rev s)) else [])"

definition text_before_at :: "ustr \<Rightarrow> ustr" where
  "text_before_at s = takeWhile (\<lambda>x. x \<noteq> 64) s"

definition classify_spec :: "pylib \<Rightarrow> ustr \<Rightarrow> ustr \<Rightarrow> ustr \<Rightarrow> bool \<times> string" where
  "classify_spec lib sender subject sender_full =
     (let g1 = filter (\<lambda>r. sublist (ascii r) (lower lib sender)
                            \<or> sublist (ascii r) (lower lib subject)
                            \<or> sublist (ascii r) (lower lib sender_full)) UNNECESSARY_PATTERNS;
          g2 = filter (\<lambda>r. sublist (ascii r) (text_after_at (lower lib sender)))
                 UNNECESSARY_DOMAINS;
          g3 = filter (\<lambda>r. sublist (ascii r) (text_before_at (lower lib sender)))
                 UNNECESSARY_SENDERS;
          g4 = filter (\<lambda>r. sublist (ascii r) (lower lib subject)) promo_keywords
      in if g1 \<noteq> [] then (True, ''Contains pattern: '' @ hd g1)
         else if g2 \<noteq> [] then (True, ''Sender domain: '' @ hd g2)
         else if g3 \<noteq> [] then (True, ''Sender name contains: '' @ hd g3)
         else if g4 \<noteq> [] then (True, ''Promotional keyword: '' @ hd g4)
         else (False, ''Not identified as unnecessary''))"

text \<open>
  Case-insensitive matching said without \<open>str.lower()\<close> and without the library, for
  texts of ASCII code points. \<open>same_letter a b\<close>: \<open>a\<close> and \<open>b\<close> are the same code
  point, or one is a small ASCII letter and the other its capital (32 below it).
  \<open>ci_sublist r t\<close>: some run of consecutive code points of \<open>t\<close> is \<open>r\<close>, letter for
  letter, up to letter case. \<open>classify_ci\<close> is the rule order above with this
  matching, on the arguments as they are given. \<open>is_ascii t\<close>: every code point of
  \<open>t\<close> is below 128.
\<close>

definition same_letter :: "int \<Rightarrow> int \<Rightarrow> bool" where
  "same_letter a b =
     (a = b \<or> (97 \<le> a \<and> a \<le> 122 \<and> b + 32 = a) \<or> (97 \<le> b \<and> b \<le> 122 \<and> a + 32 = b))"

definition ci_sublist :: "ustr \<Rightarrow> ustr \<Rightarrow> bool" where
  "ci_sublist r t =
     list_ex (\<lambda>n. list_all2 same_letter r (take (length r) (drop n t))) [0..<Suc (length t)]"

definition classify_ci :: "ustr \<Rightarrow> ustr \<Rightarrow> ustr \<Rightarrow> bool \<times> string" where
  "classify_ci sender subject sender_full =
     (let g1 = filter (\<lambda>r. ci_sublist (ascii r) sender \<or> ci_sublist (ascii r) subject
                            \<or> ci_sublist (ascii r) sender_full) UNNECESSARY_PATTERNS;
          g2 = filter (\<lambda>r. ci_sublist (ascii r) (text_after_at sender)) UNNECESSARY_DOMAINS;
          g3 = filter (\<lambda>r. ci_sublist (ascii r) (text_before_at sender)) UNNECESSARY_SENDERS;
          g4 = filter (\<lambda>r. ci_sublist (ascii r) subject) promo_keywords
      in if g1 \<noteq> [] then (True, ''Contains pattern: '' @ hd g1)
         else if g2 \<noteq> [] then (True, ''Sender domain: '' @ hd g2)
         else if g3 \<noteq> [] then (True, ''Sender name contains: '' @ hd g3)
         else if g4 \<noteq> [] then (True, ''Promotional keyword: '' @ hd g4)
         else (False, ''Not identified as unnecessary''))"

definition is_ascii :: "ustr \<Rightarrow> bool" where
  "is_ascii t = list_all (\<lambda>c. c < 128) t"

text \<open>
  \<open>angle_pair_at s n g\<close>: at position \<open>n\<close> of \<open>s\<close> stands a \<open><\<close>, followed by the
  non-empty text \<open>g\<close> without \<open>>\<close>, followed by a \<open>>\<close>.
\<close>

definition angle_pair_at :: "ustr \<Rightarrow> nat \<Rightarrow> ustr \<Rightarrow> bool" where
  "angle_pair_at s n g =
     (n < length s \<and> s ! n = 60 \<and> g \<noteq> [] \<and> 62 \<notin> set g
      \<and> take (length g) (drop (Suc n) s) = g
      \<and> Suc n + length g < length s \<and> s ! (Suc n + length g) = 62)"

section \<open>Auxiliary definitions for the scan\<close>

text \<open>
  \<open>with_counts\<close> sets the four result fields of the state. \<open>scan_flat\<close> is the scan
  of a list of ids without the division into batches: the flag is read before each
  message. \<open>grows P s s'\<close>: the trace of \<open>s'\<close> is the trace of \<open>s\<close> followed by
  events that satisfy \<open>P\<close>.
\<close>

definition with_counts :: "result list \<Rightarrow> nat \<Rightarrow> nat \<Rightarrow> nat \<Rightarrow> state \<Rightarrow> state" where
  "with_counts e d k p s =
     s\<lparr>emails_to_delete := e, deleted_count := d, kept_count := k, processed_count := p\<rparr>"

fun is_delete :: "result \<Rightarrow> bool" where
  "is_delete (Delete i d sender subject reason) = True"
| "is_delete (Keep i reason) = False"

fun scan_flat :: "pylib \<Rightarrow> env \<Rightarrow> msg_id list \<Rightarrow> state \<Rightarrow> result list \<times> state" where
  "scan_flat lib env [] s = ([], s)"
| "scan_flat lib env (email_id # rest) s =
     (if stop_requested s then ([], s)
      else case process_email lib env email_id s of
             (r, s1) \<Rightarrow> (case scan_flat lib env rest s1 of (rs, s2) \<Rightarrow> (option_list r @ rs, s2)))"

definition is_deletion :: "event \<Rightarrow> bool" where
  "is_deletion ev = (case ev of Store i \<Rightarrow> True | Expunge \<Rightarrow> True | _ \<Rightarrow> False)"

definition is_input :: "event \<Rightarrow> bool" where
  "is_input ev = (case ev of Input r \<Rightarrow> True | _ \<Rightarrow> False)"

definition scan_event :: "event \<Rightarrow> bool" where
  "scan_event ev = (\<not> is_deletion ev \<and> \<not> is_input ev)"

definition grows :: "(event \<Rightarrow> bool) \<Rightarrow> state \<Rightarrow> state \<Rightarrow> bool" where
  "grows P s s' = (\<exists>new. trace s' = trace s @ new \<and> list_all P new)"



text \<open>
  \<open>stores_ok env c n\<close>: how many of the \<open>n\<close> outside calls numbered \<open>c\<close>,
  \<open>c + 1\<close>, ... do not raise.
\<close>

definition stores_ok :: "env \<Rightarrow> nat \<Rightarrow> nat \<Rightarrow> nat" where
  "stores_ok env c n = length (filter (\<lambda>k. \<not> raises env (c + k)) [0..<n])"


text \<open>
  \<open>conn_event\<close>: the calls of \<open>reconnect_if_needed\<close> and \<open>connect_to_gmail\<close>. \<open>classified_old lib env ev\<close>: \<open>ev\<close> records the classifier
  invoked on the sender, subject and From value of a fetched message whose date was
  parsed and lies before the cutoff.
\<close>

definition conn_event :: "event \<Rightarrow> bool" where
  "conn_event ev =
     (case ev of Getpass \<Rightarrow> True | Logout \<Rightarrow> True | Open_ssl \<Rightarrow> True | Login \<Rightarrow> True
      | Select \<Rightarrow> True | Noop \<Rightarrow> True | _ \<Rightarrow> False)"

definition is_fetch :: "event \<Rightarrow> bool" where
  "is_fetch ev = (case ev of Fetch i \<Rightarrow> True | _ \<Rightarrow> False)"

definition classified_old :: "pylib \<Rightarrow> env \<Rightarrow> event \<Rightarrow> bool" where
  "classified_old lib env ev =
     (\<exists>n h d. fetch_reply env n = FetchOK h \<and> parse_email_date lib (hdr_date h) = Some d
        \<and> d < cutoff_date
        \<and> ev = Classify (extract_sender (hdr_from h)) (hdr_subject h) (hdr_from h))"

definition scan_ok :: "pylib \<Rightarrow> env \<Rightarrow> event \<Rightarrow> bool" where
  "scan_ok lib env ev = (conn_event ev \<or> is_fetch ev \<or> classified_old lib env ev)"

text \<open>
  \<open>retry_after_failure\<close>: what the specification calls the one local retry of a
  message, a liveness check followed, when it succeeds, by one more fetch; no outcome
  when either fails. \<open>checked_before seen evs\<close>: every fetch, flag-store and expunge
  of \<open>evs\<close> comes after some liveness probe (\<open>seen\<close>: a probe came before
  \<open>evs\<close>).
\<close>

definition retry_after_failure :: "pylib \<Rightarrow> env \<Rightarrow> msg_id \<Rightarrow> state \<Rightarrow> result option \<times> state" where
  "retry_after_failure lib env email_id s1 =
     (case reconnect_if_needed env s1 of
        (False, s2) \<Rightarrow> (None, s2)
      | (True, s2) \<Rightarrow>
          (case do_fetch env email_id s2 of
             (FetchOK h, s3) \<Rightarrow>
               (case handle_headers lib email_id h s3 of (r, s4) \<Rightarrow> (Some r, s4))
           | (FetchNotOK, s3) \<Rightarrow> (None, s3)
           | (FetchRaises e, s3) \<Rightarrow> (None, s3)))"

fun is_protocol_op :: "event \<Rightarrow> bool" where
  "is_protocol_op (Fetch i) = True"
| "is_protocol_op (Store i) = True"
| "is_protocol_op Expunge = True"
| "is_protocol_op ev = False"

fun checked_before :: "bool \<Rightarrow> event list \<Rightarrow> bool" where
  "checked_before seen [] = True"
| "checked_before seen (ev # evs) =
     (if ev = Noop then checked_before True evs
      else if is_protocol_op ev then seen \<and> checked_before seen evs
      else checked_before seen evs)"

definition is_classify :: "event \<Rightarrow> bool" where
  "is_classify ev = (case ev of Classify a b c \<Rightarrow> True | _ \<Rightarrow> False)"


text \<open>
  \<open>reset\<close>: the block "Reset counters" of \<open>analyze_emails_fast\<close>.
  \<open>skipped\<close>: the number of messages of a scan whose step ended without outcome.
\<close>

definition reset :: "state \<Rightarrow> state" where
  "reset s = s\<lparr>deleted_count := 0, kept_count := 0, emails_to_delete := [],
              processed_count := 0, stop_requested := False\<rparr>"

fun skipped :: "pylib \<Rightarrow> env \<Rightarrow> msg_id list \<Rightarrow> state \<Rightarrow> nat" where
  "skipped lib env [] s = 0"
| "skipped lib env (email_id # rest) s =
     (if stop_requested s then 0
      else case process_email lib env email_id s of
             (r, s1) \<Rightarrow> (if r = None then 1 else 0) + skipped lib env rest s1)"

section \<open>Concrete inputs\<close>

text \<open>
  States and outside worlds on which the theorems below are instantiated.
  \<open>two_candidates\<close>: a connected session after a scan that found two messages to
  delete. \<open>env_expunge_fails\<close>: every call succeeds but the third one of the run;
  \<open>env_quiet\<close>: nothing raises, every fetch gets a status other than \<open>OK\<close>.
\<close>

definition two_candidates :: state where
  "two_candidates =
     init_state\<lparr>emails_to_delete :=
       [Delete ''1'' 0 (ascii ''promo@shop.com'') (ascii ''Sale'') ''Contains pattern: sale'',
        Delete ''2'' 0 (ascii ''news@shop.com'') (ascii ''Digest'') ''Contains pattern: digest''],
       deleted_count := 2, processed_count := 2\<rparr>"

definition env_expunge_fails :: env where
  "env_expunge_fails =
     \<lparr>raises = (\<lambda>n. n = 2), fetch_reply = (\<lambda>n. FetchNotOK),
      input_reply = (\<lambda>n. Some (ascii ''yes'')), sigint = (\<lambda>n. False)\<rparr>"

definition env_quiet :: env where
  "env_quiet =
     \<lparr>raises = (\<lambda>n. False), fetch_reply = (\<lambda>n. FetchNotOK),
      input_reply = (\<lambda>n. Some (ascii ''yes'')), sigint = (\<lambda>n. False)\<rparr>"

text \<open>
  \<open>example_parsedate\<close>: what \<open>parsedate_tz\<close> returns for four date strings.
  \<open>example_tolower\<close>: the full lower-case mapping of the Unicode database for the
  Kelvin sign \<open>U+212A\<close> (\<open>k\<close>), for the capital I with dot above \<open>U+0130\<close> (\<open>i\<close>
  and the combining dot \<open>U+0307\<close>) and for the capital A with diaeresis \<open>U+00C4\<close>
  (\<open>U+00E4\<close>); every other code point is mapped to itself, which is right for those
  that are not capital letters. \<open>example_sigma\<close>: no capital sigma stands at the end
  of a word. \<open>lib_utc\<close>: the library on a host whose zone is UTC; \<open>lib_plus1\<close>: on a
  host one hour east of UTC.
  \<open>old_promo\<close>: the headers of a promotional message of January 2025.
  \<open>env_promo_yes\<close>: every fetch returns \<open>old_promo\<close>, nothing raises, the user
  types \<open>YES\<close>.
\<close>

definition example_parsedate :: "string \<Rightarrow> tm option" where
  "example_parsedate x =
     (if x = ''Wed, 01 Jan 2025 00:00:00 +0000'' then Some (2025, 1, 1, 0, 0, 0, Some 0)
      else if x = ''Tue, 01 Jul 2025 00:00:00 +0000'' then Some (2025, 7, 1, 0, 0, 0, Some 0)
      else if x = ''Sat, 31 May 2025 23:30:00 +0000'' then Some (2025, 5, 31, 23, 30, 0, Some 0)
      else if x = ''Sun, 01 Jun 2025 01:30:00 +0200'' then Some (2025, 6, 1, 1, 30, 0, Some 7200)
      else None)"

definition example_tolower :: "int \<Rightarrow> ustr" where
  "example_tolower c =
     (if c = 8490 then [107] else if c = 304 then [105, 775] else if c = 196 then [228]
      else [c])"

definition example_sigma :: "ustr \<Rightarrow> nat \<Rightarrow> bool" where
  "example_sigma s i = False"

definition lib_utc :: pylib where
  "lib_utc = py_lib example_parsedate (\<lambda>t. None) (\<lambda>t. 0) example_tolower example_sigma"

definition lib_plus1 :: pylib where
  "lib_plus1 = py_lib example_parsedate (\<lambda>t. None) (\<lambda>t. 3600) example_tolower example_sigma"

definition old_promo :: headers where
  "old_promo =
     \<lparr>hdr_from = ascii ''Shop <promo@shop.com>'', hdr_subject = ascii ''50% off today!'',
      hdr_date = ''Wed, 01 Jan 2025 00:00:00 +0000''\<rparr>"

definition env_promo_yes :: env where
  "env_promo_yes =
     \<lparr>raises = (\<lambda>n. False), fetch_reply = (\<lambda>n. FetchOK old_promo),
      input_reply = (\<lambda>n. Some (ascii ''YES'')), sigint = (\<lambda>n. False)\<rparr>"

text \<open>
  \<open>recent_promo\<close>: a promotional message of July 2025, after the cutoff;
  \<open>undated\<close>: the same without a Date header. \<open>env_recent\<close>: the first fetch
  returns \<open>recent_promo\<close>, the later ones \<open>undated\<close>. \<open>env_retry\<close>: the calls
  numbered 0 and 2 are fetches answered with a status other than \<open>OK\<close>, call 3 is a
  fetch answered with \<open>old_promo\<close>, nothing raises.
\<close>

definition recent_promo :: headers where
  "recent_promo =
     \<lparr>hdr_from = ascii ''promo@shop.com'', hdr_subject = ascii ''50% off today!'',
      hdr_date = ''Tue, 01 Jul 2025 00:00:00 +0000''\<rparr>"

definition undated :: headers where
  "undated =
     \<lparr>hdr_from = ascii ''promo@shop.com'', hdr_subject = ascii ''50% off today!'',
      hdr_date = ''''\<rparr>"

definition env_recent :: env where
  "env_recent =
     \<lparr>raises = (\<lambda>n. False), fetch_reply = (\<lambda>n. if n = 0 then FetchOK recent_promo else FetchOK undated),
      input_reply = (\<lambda>n. Some (ascii ''yes'')), sigint = (\<lambda>n. False)\<rparr>"

definition env_retry :: env where
  "env_retry =
     \<lparr>raises = (\<lambda>n. False), fetch_reply = (\<lambda>n. if n = 3 then FetchOK old_promo else FetchNotOK),
      input_reply = (\<lambda>n. Some (ascii ''yes'')), sigint = (\<lambda>n. False)\<rparr>"

text \<open>
  \<open>env_cancel_mid\<close>: every fetch returns \<open>old_promo\<close> and SIGINT arrives during
  the second call of the run; \<open>env_cancel_last\<close>: the same with SIGINT during the
  first call.
\<close>

definition env_cancel_mid :: env where
  "env_cancel_mid =
     \<lparr>raises = (\<lambda>n. False), fetch_reply = (\<lambda>n. FetchOK old_promo),
      input_reply = (\<lambda>n. Some (ascii ''no'')), sigint = (\<lambda>n. n = 1)\<rparr>"

definition env_cancel_last :: env where
  "env_cancel_last =
     \<lparr>raises = (\<lambda>n. False), fetch_reply = (\<lambda>n. FetchOK old_promo),
      input_reply = (\<lambda>n. Some (ascii ''no'')), sigint = (\<lambda>n. n = 0)\<rparr>"

section \<open>Strings: splitting, searching, letter case\<close>

lemma split_chr_ne [simp]: "split_chr sep s \<noteq> []"
  by (induction s) auto

lemma hd_split_chr: "hd (split_chr sep s) = takeWhile (\<lambda>x. x \<noteq> sep) s"
  by (induction s) auto

lemma split_chr_none: "sep \<notin> set s \<Longrightarrow> split_chr sep s = [s]"
  by (induction s) auto

lemma split_chr_some: "sep \<in> set s \<Longrightarrow> tl (split_chr sep s) \<noteq> []"
  by (induction s) auto

lemma last_split_chr: "last (split_chr sep s) = rev (takeWhile (\<lambda>x. x \<noteq> sep) (rev s))"
proof (induction s)
  case Nil then show ?case by simp
next
  case (Cons c cs)
  show ?case
  proof (cases "sep \<in> set cs")
    case True
    then have tw: "takeWhile (\<lambda>x. x \<noteq> sep) (rev cs @ [c]) = takeWhile (\<lambda>x. x \<noteq> sep) (rev cs)"
      by (intro takeWhile_append1[of sep]) auto
    from True have "tl (split_chr sep cs) \<noteq> []" by (rule split_chr_some)
    then have "last ((c # hd (split_chr sep cs)) # tl (split_chr sep cs)) = last (split_chr sep cs)"
      by (metis last_ConsR last_tl)
    with Cons tw show ?thesis by simp
  next
    case False
    then have tw: "takeWhile (\<lambda>x. x \<noteq> sep) (rev cs @ [c]) = rev cs @ takeWhile (\<lambda>x. x \<noteq> sep) [c]"
      by (intro takeWhile_append2) auto
    from False show ?thesis using tw by (simp add: split_chr_none)
  qed
qed

lemma find_filter: "find P xs = (if filter P xs = [] then None else Some (hd (filter P xs)))"
  by (induction xs) auto

lemma sender_domain_eq: "sender_domain s = text_after_at s"
  by (simp add: sender_domain_def text_after_at_def last_split_chr)

lemma takeWhile_all: "x \<notin> set s \<Longrightarrow> takeWhile (\<lambda>y. y \<noteq> x) s = s"
  by (induction s) auto

lemma sender_name_eq: "sender_name s = text_before_at s"
  by (simp add: sender_name_def text_before_at_def hd_split_chr takeWhile_all)

lemma classifier_refines:
  "is_unnecessary_email_fast lib sender subject sender_full
     = classify_spec lib sender subject sender_full"
  by (simp add: is_unnecessary_email_fast_def classify_spec_def find_filter
      sender_domain_eq sender_name_eq Let_def)

lemma angle_pair_at_Suc: "angle_pair_at (c # cs) (Suc n) g = angle_pair_at cs n g"
  by (simp add: angle_pair_at_def)

lemma takeWhile_prefix_eq:
  "x \<notin> set g \<Longrightarrow> takeWhile (\<lambda>y. y \<noteq> x) (g @ x # post) = g"
  by (induction g) auto

lemma dropWhile_prefix_eq:
  "x \<notin> set g \<Longrightarrow> dropWhile (\<lambda>y. y \<noteq> x) (g @ x # post) = x # post"
  by (induction g) auto

lemma pair_decomp:
  "angle_pair_at (c # cs) 0 g \<longleftrightarrow>
     c = 60 \<and> g \<noteq> [] \<and> 62 \<notin> set g \<and> (\<exists>post. cs = g @ 62 # post)"
proof
  assume a: "angle_pair_at (c # cs) 0 g"
  then have c: "c = 60" and g: "g \<noteq> []" "62 \<notin> set g"
    and tk: "take (length g) cs = g" and len: "length g < length cs"
    and gt: "cs ! length g = 62"
    by (auto simp: angle_pair_at_def)
  have "cs = take (length g) cs @ (cs ! length g) # drop (Suc (length g)) cs"
    using len by (simp add: id_take_nth_drop[symmetric])
  then have "cs = g @ 62 # drop (Suc (length g)) cs"
    using tk gt by simp
  then have "\<exists>post. cs = g @ 62 # post" by blast
  with c g show "c = 60 \<and> g \<noteq> [] \<and> 62 \<notin> set g \<and> (\<exists>post. cs = g @ 62 # post)"
    by simp
next
  assume "c = 60 \<and> g \<noteq> [] \<and> 62 \<notin> set g \<and> (\<exists>post. cs = g @ 62 # post)"
  then obtain post where c: "c = 60" and g: "g \<noteq> []" "62 \<notin> set g"
    and cs: "cs = g @ 62 # post" by blast
  show "angle_pair_at (c # cs) 0 g"
    using c g by (simp add: angle_pair_at_def cs)
qed

lemma tw_decomp:
  "(\<exists>post. cs = g @ x # post) \<and> x \<notin> set g \<longleftrightarrow>
     g = takeWhile (\<lambda>y. y \<noteq> x) cs \<and> dropWhile (\<lambda>y. y \<noteq> x) cs \<noteq> []"
proof
  assume "(\<exists>post. cs = g @ x # post) \<and> x \<notin> set g"
  then obtain post where cs: "cs = g @ x # post" and ng: "x \<notin> set g" by blast
  show "g = takeWhile (\<lambda>y. y \<noteq> x) cs \<and> dropWhile (\<lambda>y. y \<noteq> x) cs \<noteq> []"
    by (simp add: cs takeWhile_prefix_eq[OF ng] dropWhile_prefix_eq[OF ng])
next
  assume a: "g = takeWhile (\<lambda>y. y \<noteq> x) cs \<and> dropWhile (\<lambda>y. y \<noteq> x) cs \<noteq> []"
  then obtain d ds where d: "dropWhile (\<lambda>y. y \<noteq> x) cs = d # ds"
    by (cases "dropWhile (\<lambda>y. y \<noteq> x) cs") auto
  have "\<not> (hd (dropWhile (\<lambda>y. y \<noteq> x) cs) \<noteq> x)"
    using a hd_dropWhile[of "\<lambda>y. y \<noteq> x" cs] by blast
  then have dx: "d = x" using d by simp
  have "cs = takeWhile (\<lambda>y. y \<noteq> x) cs @ dropWhile (\<lambda>y. y \<noteq> x) cs" by simp
  then have cs: "cs = g @ x # ds" using a d dx by simp
  have "x \<notin> set (takeWhile (\<lambda>y. y \<noteq> x) cs)"
    by (auto dest: set_takeWhileD)
  then have "x \<notin> set g" using a by simp
  moreover have "\<exists>post. cs = g @ x # post" using cs by (rule exI)
  ultimately show "(\<exists>post. cs = g @ x # post) \<and> x \<notin> set g" by simp
qed

lemma angle_pair_at_0:
  "angle_pair_at (c # cs) 0 g \<longleftrightarrow>
     c = 60 \<and> g = takeWhile (\<lambda>x. x \<noteq> 62) cs \<and> g \<noteq> []
     \<and> dropWhile (\<lambda>x. x \<noteq> 62) cs \<noteq> []"
  using tw_decomp[of cs g "62"] by (auto simp: pair_decomp)


lemma angle_group_first:
  "angle_pair_at s n g \<Longrightarrow> (\<forall>m<n. \<forall>g'. \<not> angle_pair_at s m g') \<Longrightarrow> angle_group s = Some g"
proof (induction s arbitrary: n)
  case Nil
  then show ?case by (simp add: angle_pair_at_def)
next
  case (Cons c cs)
  let ?tw = "takeWhile (\<lambda>x. x \<noteq> 62) cs"
  let ?H = "c = 60 \<and> ?tw \<noteq> [] \<and> dropWhile (\<lambda>x. x \<noteq> 62) cs \<noteq> []"
  have eq: "angle_group (c # cs) = (if ?H then Some ?tw else angle_group cs)"
    by (rule angle_group.simps(2))
  show ?case
  proof (cases n)
    case 0
    with Cons.prems(1) have "angle_pair_at (c # cs) 0 g" by simp
    then have h: "?H" and g: "g = ?tw" unfolding angle_pair_at_0 by blast+
    show ?thesis by (simp only: eq if_P[OF h] g)
  next
    case (Suc k)
    with Cons.prems(2) have no0: "\<not> angle_pair_at (c # cs) 0 ?tw" by blast
    have k: "angle_pair_at cs k g" using Cons.prems(1) Suc by (simp add: angle_pair_at_Suc)
    have mn: "\<forall>m<k. \<forall>g'. \<not> angle_pair_at cs m g'"
    proof (intro allI impI)
      fix m g' assume "m < k"
      then have "Suc m < n" using Suc by simp
      then have "\<not> angle_pair_at (c # cs) (Suc m) g'" using Cons.prems(2) by blast
      then show "\<not> angle_pair_at cs m g'" by (simp add: angle_pair_at_Suc)
    qed
    have ih: "angle_group cs = Some g" using Cons.IH[OF k mn] .
    have nh: "\<not> ?H" using no0 unfolding angle_pair_at_0 by blast
    show ?thesis by (simp only: eq if_not_P[OF nh] ih)
  qed
qed

lemma angle_group_none:
  "(\<forall>n g. \<not> angle_pair_at s n g) \<Longrightarrow> angle_group s = None"
proof (induction s)
  case Nil
  then show ?case by simp
next
  case (Cons c cs)
  let ?tw = "takeWhile (\<lambda>x. x \<noteq> 62) cs"
  let ?H = "c = 60 \<and> ?tw \<noteq> [] \<and> dropWhile (\<lambda>x. x \<noteq> 62) cs \<noteq> []"
  have eq: "angle_group (c # cs) = (if ?H then Some ?tw else angle_group cs)"
    by (rule angle_group.simps(2))
  have "\<forall>n g. \<not> angle_pair_at cs n g"
  proof (intro allI)
    fix n g
    have "\<not> angle_pair_at (c # cs) (Suc n) g" using Cons.prems by blast
    then show "\<not> angle_pair_at cs n g" by (simp add: angle_pair_at_Suc)
  qed
  then have ih: "angle_group cs = None" by (rule Cons.IH)
  have "\<not> angle_pair_at (c # cs) 0 ?tw" using Cons.prems by blast
  then have nh: "\<not> ?H" unfolding angle_pair_at_0 by blast
  show ?case by (simp only: eq if_not_P[OF nh] ih)
qed

lemma no_lt_no_pair: "60 \<notin> set s \<Longrightarrow> \<not> angle_pair_at s n g"
proof
  assume n: "60 \<notin> set s" and p: "angle_pair_at s n g"
  from p have "n < length s" and "s ! n = 60" by (simp_all add: angle_pair_at_def)
  then have "60 \<in> set s" by (metis nth_mem)
  with n show False by simp
qed

lemma concat_singletons: "concat (map (\<lambda>x. [g x]) xs) = map g xs"
  by (induction xs) auto

lemma lower_ascii: "is_ascii t \<Longrightarrow> lower lib t = map ascii_lower t"
proof -
  assume a: "is_ascii t"
  have m: "map (lower_at lib t) [0..<length t] = map (\<lambda>i. [ascii_lower (t ! i)]) [0..<length t]"
  proof (rule map_cong[OF refl])
    fix i assume "i \<in> set [0..<length t]"
    then have "t ! i < 128" using a by (simp add: is_ascii_def list_all_length)
    then show "lower_at lib t i = [ascii_lower (t ! i)]" by (simp add: lower_at_def)
  qed
  have "lower lib t = concat (map (\<lambda>i. [ascii_lower (t ! i)]) [0..<length t])"
    unfolding lower_def m ..
  also have "\<dots> = map (\<lambda>i. ascii_lower (t ! i)) [0..<length t]"
    by (rule concat_singletons)
  also have "\<dots> = map ascii_lower (map (nth t) [0..<length t])" by simp
  also have "\<dots> = map ascii_lower t" by (simp only: map_nth)
  finally show ?thesis .
qed

lemma ascii_lower_at: "ascii_lower c = 64 \<longleftrightarrow> c = 64"
  by (auto simp: ascii_lower_def)

lemma same_letter_lower:
  "\<not> (65 \<le> a \<and> a \<le> 90) \<Longrightarrow> same_letter a b \<longleftrightarrow> ascii_lower b = a"
  by (auto simp: same_letter_def ascii_lower_def)

lemma list_all2_map_eq: "list_all2 (\<lambda>a b. f b = a) r seg \<longleftrightarrow> r = map f seg"
proof (induction seg arbitrary: r)
  case Nil then show ?case by simp
next
  case (Cons x xs) then show ?case by (cases r) auto
qed

lemma ci_seg:
  assumes "\<forall>a\<in>set r. \<not> (65 \<le> a \<and> a \<le> 90)"
  shows "list_all2 same_letter r seg \<longleftrightarrow> r = map ascii_lower seg"
proof -
  have "list_all2 same_letter r seg \<longleftrightarrow> list_all2 (\<lambda>a b. ascii_lower b = a) r seg"
    using assms by (auto simp: list_all2_conv_all_nth same_letter_lower)
  then show ?thesis by (simp add: list_all2_map_eq)
qed

lemma sublist_map_seg:
  "sublist r (map f t) \<longleftrightarrow> (\<exists>n\<le>length t. r = map f (take (length r) (drop n t)))"
proof
  assume "sublist r (map f t)"
  then obtain ps ss where e: "map f t = ps @ r @ ss" by (auto simp: sublist_def)
  have "length ps \<le> length (map f t)" by (simp add: e)
  then have n: "length ps \<le> length t" by simp
  have "take (length r) (drop (length ps) (map f t)) = r" by (simp add: e)
  then have "r = map f (take (length r) (drop (length ps) t))" by (simp add: take_map drop_map)
  with n show "\<exists>n\<le>length t. r = map f (take (length r) (drop n t))" by blast
next
  assume "\<exists>n\<le>length t. r = map f (take (length r) (drop n t))"
  then obtain n where n: "n \<le> length t" and r: "r = map f (take (length r) (drop n t))" by blast
  have "t = take n t @ take (length r) (drop n t) @ drop (length r) (drop n t)"
    by (simp only: append_take_drop_id)
  then have "map f t = map f (take n t) @ map f (take (length r) (drop n t))
               @ map f (drop (length r) (drop n t))"
    by (metis map_append)
  then have "map f t = map f (take n t) @ r @ map f (drop (length r) (drop n t))"
    using r by simp
  then show "sublist r (map f t)" unfolding sublist_def by blast
qed

lemma ci_sublist_lower:
  assumes "\<forall>a\<in>set r. \<not> (65 \<le> a \<and> a \<le> 90)"
  shows "ci_sublist r t \<longleftrightarrow> sublist r (map ascii_lower t)"
proof -
  have "ci_sublist r t \<longleftrightarrow> (\<exists>n\<le>length t. list_all2 same_letter r (take (length r) (drop n t)))"
    by (simp only: ci_sublist_def list_ex_iff set_upt Bex_def atLeastLessThan_iff
          less_Suc_eq_le) simp
  also have "\<dots> \<longleftrightarrow> (\<exists>n\<le>length t. r = map ascii_lower (take (length r) (drop n t)))"
    by (simp add: ci_seg[OF assms])
  also have "\<dots> \<longleftrightarrow> sublist r (map ascii_lower t)"
    by (simp add: sublist_map_seg)
  finally show ?thesis .
qed

lemma text_before_at_lower: "text_before_at (map ascii_lower s) = map ascii_lower (text_before_at s)"
  by (simp add: text_before_at_def takeWhile_map comp_def ascii_lower_at)

lemma text_after_at_lower: "text_after_at (map ascii_lower s) = map ascii_lower (text_after_at s)"
proof -
  have "(64 \<in> ascii_lower ` set s) = (64 \<in> set s)"
    by (auto simp: ascii_lower_at image_iff)
  moreover have "takeWhile (\<lambda>x. x \<noteq> 64) (map ascii_lower (rev s))
                   = map ascii_lower (takeWhile (\<lambda>x. x \<noteq> 64) (rev s))"
    by (simp add: takeWhile_map comp_def ascii_lower_at)
  ultimately show ?thesis
    by (simp add: text_after_at_def rev_map)
qed

lemma rules_small:
  "list_all (\<lambda>r. list_all (\<lambda>a. \<not> (65 \<le> a \<and> a \<le> 90)) (ascii r))
     (UNNECESSARY_PATTERNS @ UNNECESSARY_DOMAINS @ UNNECESSARY_SENDERS @ promo_keywords)"
  by code_simp

lemma rule_small:
  "r \<in> set UNNECESSARY_PATTERNS \<or> r \<in> set UNNECESSARY_DOMAINS \<or> r \<in> set UNNECESSARY_SENDERS
     \<or> r \<in> set promo_keywords
   \<Longrightarrow> \<forall>a\<in>set (ascii r). \<not> (65 \<le> a \<and> a \<le> 90)"
  using rules_small unfolding list_all_iff by auto

lemma rule_ci:
  "r \<in> set UNNECESSARY_PATTERNS \<or> r \<in> set UNNECESSARY_DOMAINS \<or> r \<in> set UNNECESSARY_SENDERS
     \<or> r \<in> set promo_keywords
   \<Longrightarrow> sublist (ascii r) (map ascii_lower t) \<longleftrightarrow> ci_sublist (ascii r) t"
  using ci_sublist_lower[OF rule_small] by blast

lemma classifier_ci:
  assumes "is_ascii sender" "is_ascii subject" "is_ascii sender_full"
  shows "is_unnecessary_email_fast lib sender subject sender_full
           = classify_ci sender subject sender_full"
proof -
  have g1: "filter (\<lambda>r. sublist (ascii r) (map ascii_lower sender)
                        \<or> sublist (ascii r) (map ascii_lower subject)
                        \<or> sublist (ascii r) (map ascii_lower sender_full)) UNNECESSARY_PATTERNS
          = filter (\<lambda>r. ci_sublist (ascii r) sender \<or> ci_sublist (ascii r) subject
                        \<or> ci_sublist (ascii r) sender_full) UNNECESSARY_PATTERNS"
    by (rule filter_cong[OF refl]) (simp add: rule_ci)
  have g2: "filter (\<lambda>r. sublist (ascii r) (map ascii_lower (text_after_at sender))) UNNECESSARY_DOMAINS
          = filter (\<lambda>r. ci_sublist (ascii r) (text_after_at sender)) UNNECESSARY_DOMAINS"
    by (rule filter_cong[OF refl]) (simp add: rule_ci)
  have g3: "filter (\<lambda>r. sublist (ascii r) (map ascii_lower (text_before_at sender))) UNNECESSARY_SENDERS
          = filter (\<lambda>r. ci_sublist (ascii r) (text_before_at sender)) UNNECESSARY_SENDERS"
    by (rule filter_cong[OF refl]) (simp add: rule_ci)
  have g4: "filter (\<lambda>r. sublist (ascii r) (map ascii_lower subject)) promo_keywords
          = filter (\<lambda>r. ci_sublist (ascii r) subject) promo_keywords"
    by (rule filter_cong[OF refl]) (simp add: rule_ci)
  show ?thesis
    unfolding classifier_refines classify_spec_def classify_ci_def lower_ascii[OF assms(1)]
      lower_ascii[OF assms(2)] lower_ascii[OF assms(3)] text_after_at_lower text_before_at_lower
      g1 g2 g3 g4 ..
qed

text \<open>
  A text without capital sigma is lower-cased code point by code point, and a code
  point whose lower-case mapping is a small ASCII letter is treated as that letter.
\<close>

lemma lower_pointwise:
  assumes "931 \<notin> set t"
  shows "lower lib t
           = concat (map (\<lambda>c. if c < 128 then [ascii_lower c] else tolower_full lib c) t)"
proof -
  let ?g = "\<lambda>c. if c < 128 then [ascii_lower c] else tolower_full lib c"
  have m: "map (lower_at lib t) [0..<length t] = map (\<lambda>i. ?g (t ! i)) [0..<length t]"
  proof (rule map_cong[OF refl])
    fix i assume "i \<in> set [0..<length t]"
    then have "t ! i \<in> set t" by simp
    then have "t ! i \<noteq> 931" using assms by metis
    then show "lower_at lib t i = ?g (t ! i)" by (simp add: lower_at_def)
  qed
  have "map (\<lambda>i. ?g (t ! i)) [0..<length t] = map ?g (map (nth t) [0..<length t])"
    by simp
  also have "\<dots> = map ?g t" by (simp only: map_nth)
  finally show ?thesis unfolding lower_def m by simp
qed

lemma lower_as_letter:
  assumes "tolower_full lib c = [k]" "128 \<le> c" "c \<noteq> 931" "97 \<le> k" "k \<le> 122"
    and "931 \<notin> set pre" "931 \<notin> set post"
  shows "lower lib (pre @ [c] @ post) = lower lib (pre @ [k] @ post)"
proof -
  have a: "931 \<notin> set (pre @ [c] @ post)" using assms by simp
  have b: "931 \<notin> set (pre @ [k] @ post)" using assms by simp
  have k: "ascii_lower k = k" using assms by (simp add: ascii_lower_def)
  show ?thesis
    unfolding lower_pointwise[OF a] lower_pointwise[OF b] using assms k by simp
qed

text \<open>
  The lower-case text contains an \<open>@\<close> only where the text does, when no mapping of
  the Unicode table produces one.
\<close>

lemma lower_no_at:
  assumes t: "\<forall>c. 128 \<le> c \<longrightarrow> 64 \<notin> set (tolower_full lib c)" and n: "64 \<notin> set s"
  shows "64 \<notin> set (lower lib s)"
proof
  assume "64 \<in> set (lower lib s)"
  then obtain i where i: "i < length s" and m: "64 \<in> set (lower_at lib s i)"
    by (auto simp: lower_def)
  have "s ! i \<noteq> 64" using n i by (metis nth_mem)
  then show False using m t
    by (auto simp: lower_at_def Let_def ascii_lower_def split: if_splits)
qed

section \<open>The classifier\<close>

text \<open>
  Claim C3. For every sender, subject and full sender string the classifier is the
  function \<open>classify_spec\<close>: it tests the rule fragments as substrings of the
  lower-cased arguments, the pattern rules against all three strings, then the domain
  rules against the text after the (last) \<open>@\<close> of the sender, then the sender-name
  rules against the text before the (first) \<open>@\<close> of the sender, then the promotional
  keywords against the subject only; the first group with a hit decides, the reason ends
  with the first fragment of that group that hit, and without any hit the answer is
  "not unnecessary" (the classifier's own text is \<open>Not identified as unnecessary\<close>, and
  the scan records the message as kept with reason \<open>not_unnecessary\<close>). For arguments
  made of ASCII characters the matching is case-insensitive in the plain sense that
  \<open>classify_ci\<close> states without any lower-casing: a fragment hits when some run of
  the text equals it up to the case of the letters. Outside ASCII the matching is the
  one of \<open>str.lower()\<close>: a code point whose lower-case mapping in the Unicode table
  is a small ASCII letter counts as that letter, so that a Kelvin sign \<open>U+212A\<close> in
  the subject matches a \<open>k\<close> of a fragment.
\<close>

theorem classifier_rule_groups_in_order:
  "is_unnecessary_email_fast lib sender subject sender_full
     = classify_spec lib sender subject sender_full
   \<and> (is_ascii sender \<and> is_ascii subject \<and> is_ascii sender_full
      \<longrightarrow> is_unnecessary_email_fast lib sender subject sender_full
            = classify_ci sender subject sender_full)
   \<and> (tolower_full lib c = [k] \<and> 128 \<le> c \<and> c \<noteq> 931 \<and> 97 \<le> k \<and> k \<le> 122
        \<and> 931 \<notin> set pre \<and> 931 \<notin> set post
      \<longrightarrow> is_unnecessary_email_fast lib sender (pre @ [c] @ post) sender_full
            = is_unnecessary_email_fast lib sender (pre @ [k] @ post) sender_full)
   \<and> (parse_email_date lib (hdr_date h) = Some d \<and> d < cutoff_date
        \<and> \<not> fst (is_unnecessary_email_fast lib (extract_sender (hdr_from h)) (hdr_subject h)
                   (hdr_from h))
      \<longrightarrow> fst (handle_headers lib i h s) = Keep i ''not_unnecessary'')"
proof -
  have c1: "is_unnecessary_email_fast lib sender subject sender_full
              = classify_spec lib sender subject sender_full"
    by (rule classifier_refines)
  have c2: "is_ascii sender \<and> is_ascii subject \<and> is_ascii sender_full
      \<longrightarrow> is_unnecessary_email_fast lib sender subject sender_full
            = classify_ci sender subject sender_full"
    by (simp add: classifier_ci)
  have ck: "tolower_full lib c = [k] \<and> 128 \<le> c \<and> c \<noteq> 931 \<and> 97 \<le> k \<and> k \<le> 122
        \<and> 931 \<notin> set pre \<and> 931 \<notin> set post
      \<longrightarrow> is_unnecessary_email_fast lib sender (pre @ [c] @ post) sender_full
            = is_unnecessary_email_fast lib sender (pre @ [k] @ post) sender_full"
  proof
    assume "tolower_full lib c = [k] \<and> 128 \<le> c \<and> c \<noteq> 931 \<and> 97 \<le> k \<and> k \<le> 122
        \<and> 931 \<notin> set pre \<and> 931 \<notin> set post"
    then have "lower lib (pre @ [c] @ post) = lower lib (pre @ [k] @ post)"
      by (intro lower_as_letter) simp_all
    then show "is_unnecessary_email_fast lib sender (pre @ [c] @ post) sender_full
            = is_unnecessary_email_fast lib sender (pre @ [k] @ post) sender_full"
      by (simp add: is_unnecessary_email_fast_def)
  qed
  have c3: "parse_email_date lib (hdr_date h) = Some d \<and> d < cutoff_date
        \<and> \<not> fst (is_unnecessary_email_fast lib (extract_sender (hdr_from h)) (hdr_subject h)
                   (hdr_from h))
      \<longrightarrow> fst (handle_headers lib i h s) = Keep i ''not_unnecessary''"
    by (cases "is_unnecessary_email_fast lib (extract_sender (hdr_from h)) (hdr_subject h)
                 (hdr_from h)")
       (simp add: handle_headers_def Let_def)
  from c1 c2 ck c3 show ?thesis by (intro conjI)
qed

theorem classifier_rule_groups_in_order_witness:
  "is_ascii (ascii ''NewsLetter@Updates.COM'') \<and> is_ascii (ascii ''Weekly DIGEST'')
   \<and> is_ascii (ascii ''News <NewsLetter@Updates.COM>'')
   \<and> is_unnecessary_email_fast lib_utc (ascii ''NewsLetter@Updates.COM'')
        (ascii ''Weekly DIGEST'') (ascii ''News <NewsLetter@Updates.COM>'')
       = (True, ''Contains pattern: newsletter'')
   \<and> classify_spec lib_utc (ascii ''NewsLetter@Updates.COM'')
        (ascii ''Weekly DIGEST'') (ascii ''News <NewsLetter@Updates.COM>'')
       = (True, ''Contains pattern: newsletter'')
   \<and> classify_ci (ascii ''NewsLetter@Updates.COM'')
        (ascii ''Weekly DIGEST'') (ascii ''News <NewsLetter@Updates.COM>'')
       = (True, ''Contains pattern: newsletter'')
   \<and> is_unnecessary_email_fast lib_utc (ascii ''Amy@Marketing.com'') (ascii ''Lunch?'')
        (ascii ''Amy@Marketing.com'')
       = (True, ''Contains pattern: marketing'')
   \<and> is_unnecessary_email_fast lib_utc (ascii ''Bob@MailChimp.com'') (ascii ''Lunch?'')
        (ascii ''Bob <Bob@MailChimp.com>'')
       = (True, ''Sender domain: mailchimp.com'')
   \<and> is_unnecessary_email_fast lib_utc (ascii ''Hello@Example.org'') (ascii ''Lunch?'')
        (ascii ''Hello@Example.org'')
       = (True, ''Sender name contains: hello'')
   \<and> is_unnecessary_email_fast lib_utc (ascii ''amy@example.org'') (ascii ''20% OFF shoes'')
        (ascii ''amy@example.org'')
       = (True, ''Promotional keyword: % off'')
   \<and> tolower_full lib_utc 8490 = [107]
   \<and> 931 \<notin> set (ascii ''MAR'') \<and> 931 \<notin> set (ascii ''ETING plan'')
   \<and> is_unnecessary_email_fast lib_utc (ascii ''amy@example.org'')
        (ascii ''MAR'' @ [107] @ ascii ''ETING plan'') (ascii ''amy@example.org'')
       = (True, ''Contains pattern: marketing'')
   \<and> is_unnecessary_email_fast lib_utc (ascii ''amy@example.org'')
        (ascii ''MAR'' @ [8490] @ ascii ''ETING plan'') (ascii ''amy@example.org'')
       = (True, ''Contains pattern: marketing'')
   \<and> classify_ci (ascii ''amy@example.org'')
        (ascii ''MAR'' @ [8490] @ ascii ''ETING plan'') (ascii ''amy@example.org'')
       = (False, ''Not identified as unnecessary'')
   \<and> is_unnecessary_email_fast lib_utc (ascii ''Friend@GMail.com'') (ascii ''DINNER Friday?'')
        (ascii ''Friend@GMail.com'')
       = (False, ''Not identified as unnecessary'')
   \<and> parse_email_date lib_utc ''Wed, 01 Jan 2025 00:00:00 +0000'' = Some 1735689600
   \<and> 1735689600 < cutoff_date
   \<and> fst (handle_headers lib_utc ''7''
        \<lparr>hdr_from = ascii ''Friend@GMail.com'', hdr_subject = ascii ''DINNER Friday?'',
          hdr_date = ''Wed, 01 Jan 2025 00:00:00 +0000''\<rparr> init_state)
       = Keep ''7'' ''not_unnecessary''"
proof -
  let ?h = "\<lparr>hdr_from = ascii ''Friend@GMail.com'', hdr_subject = ascii ''DINNER Friday?'',
          hdr_date = ''Wed, 01 Jan 2025 00:00:00 +0000''\<rparr>"
  have a: "is_ascii (ascii ''NewsLetter@Updates.COM'') \<and> is_ascii (ascii ''Weekly DIGEST'')
   \<and> is_ascii (ascii ''News <NewsLetter@Updates.COM>'')"
    by code_simp
  have v1: "classify_ci (ascii ''NewsLetter@Updates.COM'')
        (ascii ''Weekly DIGEST'') (ascii ''News <NewsLetter@Updates.COM>'')
       = (True, ''Contains pattern: newsletter'')"
    by code_simp
  have v2: "is_unnecessary_email_fast lib_utc (ascii ''Amy@Marketing.com'') (ascii ''Lunch?'')
        (ascii ''Amy@Marketing.com'')
       = (True, ''Contains pattern: marketing'')"
    by code_simp
  have v3: "is_unnecessary_email_fast lib_utc (ascii ''Bob@MailChimp.com'') (ascii ''Lunch?'')
        (ascii ''Bob <Bob@MailChimp.com>'')
       = (True, ''Sender domain: mailchimp.com'')"
    by code_simp
  have v4: "is_unnecessary_email_fast lib_utc (ascii ''Hello@Example.org'') (ascii ''Lunch?'')
        (ascii ''Hello@Example.org'')
       = (True, ''Sender name contains: hello'')"
    by code_simp
  have v5: "is_unnecessary_email_fast lib_utc (ascii ''amy@example.org'') (ascii ''20% OFF shoes'')
        (ascii ''amy@example.org'')
       = (True, ''Promotional keyword: % off'')"
    by code_simp
  have k1: "tolower_full lib_utc 8490 = [107]"
    by code_simp
  have k2: "931 \<notin> set (ascii ''MAR'') \<and> 931 \<notin> set (ascii ''ETING plan'')"
    by code_simp
  have k3: "is_unnecessary_email_fast lib_utc (ascii ''amy@example.org'')
        (ascii ''MAR'' @ [107] @ ascii ''ETING plan'') (ascii ''amy@example.org'')
       = (True, ''Contains pattern: marketing'')"
    by code_simp
  have v7: "classify_ci (ascii ''amy@example.org'')
        (ascii ''MAR'' @ [8490] @ ascii ''ETING plan'') (ascii ''amy@example.org'')
       = (False, ''Not identified as unnecessary'')"
    by code_simp
  have v8: "is_unnecessary_email_fast lib_utc (ascii ''Friend@GMail.com'') (ascii ''DINNER Friday?'')
        (ascii ''Friend@GMail.com'')
       = (False, ''Not identified as unnecessary'')"
    by code_simp
  have e: "extract_sender (ascii ''Friend@GMail.com'') = ascii ''Friend@GMail.com''"
    by code_simp
  have p: "parse_email_date lib_utc ''Wed, 01 Jan 2025 00:00:00 +0000'' = Some 1735689600"
    by code_simp
  have c: "1735689600 < cutoff_date"
    by code_simp
  have h: "parse_email_date lib_utc (hdr_date ?h) = Some 1735689600 \<and> 1735689600 < cutoff_date
        \<and> \<not> fst (is_unnecessary_email_fast lib_utc (extract_sender (hdr_from ?h)) (hdr_subject ?h)
                   (hdr_from ?h))"
    using p c v8 e by simp
  note t = classifier_rule_groups_in_order[where lib = lib_utc
      and sender = "ascii ''NewsLetter@Updates.COM''" and subject = "ascii ''Weekly DIGEST''"
      and sender_full = "ascii ''News <NewsLetter@Updates.COM>''" and h = ?h
      and d = 1735689600 and i = "''7''" and s = init_state]
  have r1: "is_unnecessary_email_fast lib_utc (ascii ''NewsLetter@Updates.COM'')
        (ascii ''Weekly DIGEST'') (ascii ''News <NewsLetter@Updates.COM>'')
       = (True, ''Contains pattern: newsletter'')"
    using t a v1 by metis
  have r2: "classify_spec lib_utc (ascii ''NewsLetter@Updates.COM'')
        (ascii ''Weekly DIGEST'') (ascii ''News <NewsLetter@Updates.COM>'')
       = (True, ''Contains pattern: newsletter'')"
    using t r1 by metis
  note tk = classifier_rule_groups_in_order[where lib = lib_utc
      and sender = "ascii ''amy@example.org''" and sender_full = "ascii ''amy@example.org''"
      and c = 8490 and k = 107 and pre = "ascii ''MAR''" and post = "ascii ''ETING plan''"
      and subject = "ascii ''Weekly DIGEST''" and h = ?h
      and d = 1735689600 and i = "''7''" and s = init_state]
  have kk: "128 \<le> (8490::int) \<and> (8490::int) \<noteq> 931 \<and> 97 \<le> (107::int) \<and> (107::int) \<le> 122"
    by simp
  have "is_unnecessary_email_fast lib_utc (ascii ''amy@example.org'')
          (ascii ''MAR'' @ [8490] @ ascii ''ETING plan'') (ascii ''amy@example.org'')
        = is_unnecessary_email_fast lib_utc (ascii ''amy@example.org'')
          (ascii ''MAR'' @ [107] @ ascii ''ETING plan'') (ascii ''amy@example.org'')"
    using tk k1 k2 kk by blast
  then have v6: "is_unnecessary_email_fast lib_utc (ascii ''amy@example.org'')
        (ascii ''MAR'' @ [8490] @ ascii ''ETING plan'') (ascii ''amy@example.org'')
       = (True, ''Contains pattern: marketing'')"
    using k3 by metis
  have r3: "fst (handle_headers lib_utc ''7'' ?h init_state) = Keep ''7'' ''not_unnecessary''"
    using t h by blast
  from a r1 r2 v1 v2 v3 v4 v5 k1 k2 k3 v6 v7 v8 p c r3 show ?thesis by blast
qed

section \<open>The sender address\<close>

text \<open>
  Claim C10. The sender given to the classifier as first argument is the text inside
  the first angle-bracket pair of the decoded From value, a pair being a \<open><\<close>, then at
  least one character other than \<open>>\<close>, then a \<open>>\<close> (the expression of the source
  does not match the empty pair); when the value has no such pair the sender is the whole
  value. For a From value without angle brackets and without \<open>@\<close> the domain rules
  therefore see the empty string and the sender-name rules see the whole lower-cased
  From value (no lower-case mapping of the Unicode table produces an \<open>@\<close>). The last
  part states that this sender is what the scan passes on: for a message dated before
  the cutoff the outcome of the scan step is the verdict of the classifier on the
  extracted sender, the subject and the From value, a deletion entry with the
  classifier's reason or a keep entry.
\<close>

theorem sender_is_first_angle_pair:
  "(angle_pair_at sender_full n g \<and> (\<forall>m<n. \<forall>g'. \<not> angle_pair_at sender_full m g')
      \<longrightarrow> extract_sender sender_full = g)
   \<and> ((\<forall>n g. \<not> angle_pair_at sender_full n g) \<longrightarrow> extract_sender sender_full = sender_full)
   \<and> (60 \<notin> set sender_full \<and> 64 \<notin> set sender_full
        \<and> (\<forall>c. 128 \<le> c \<longrightarrow> 64 \<notin> set (tolower_full lib c))
      \<longrightarrow> extract_sender sender_full = sender_full
          \<and> sender_domain (lower lib (extract_sender sender_full)) = []
          \<and> sender_name (lower lib (extract_sender sender_full)) = lower lib sender_full)
   \<and> (parse_email_date lib (hdr_date h) = Some d \<and> d < cutoff_date
      \<longrightarrow> trace (snd (handle_headers lib i h s))
            = trace s @ [Classify (extract_sender (hdr_from h)) (hdr_subject h) (hdr_from h)]
          \<and> fst (handle_headers lib i h s)
            = (if fst (is_unnecessary_email_fast lib (extract_sender (hdr_from h))
                        (hdr_subject h) (hdr_from h))
               then Delete i d (hdr_from h) (hdr_subject h)
                      (snd (is_unnecessary_email_fast lib (extract_sender (hdr_from h))
                              (hdr_subject h) (hdr_from h)))
               else Keep i ''not_unnecessary''))"
proof -
  have c1: "angle_pair_at sender_full n g \<and> (\<forall>m<n. \<forall>g'. \<not> angle_pair_at sender_full m g')
      \<longrightarrow> extract_sender sender_full = g"
  proof
    assume "angle_pair_at sender_full n g \<and> (\<forall>m<n. \<forall>g'. \<not> angle_pair_at sender_full m g')"
    then have "angle_group sender_full = Some g" using angle_group_first by blast
    then show "extract_sender sender_full = g" by (simp add: extract_sender_def)
  qed
  have c2: "(\<forall>n g. \<not> angle_pair_at sender_full n g) \<longrightarrow> extract_sender sender_full = sender_full"
  proof
    assume "\<forall>n g. \<not> angle_pair_at sender_full n g"
    then have "angle_group sender_full = None" by (rule angle_group_none)
    then show "extract_sender sender_full = sender_full" by (simp add: extract_sender_def)
  qed
  have c3: "60 \<notin> set sender_full \<and> 64 \<notin> set sender_full
        \<and> (\<forall>c. 128 \<le> c \<longrightarrow> 64 \<notin> set (tolower_full lib c))
      \<longrightarrow> extract_sender sender_full = sender_full
          \<and> sender_domain (lower lib (extract_sender sender_full)) = []
          \<and> sender_name (lower lib (extract_sender sender_full)) = lower lib sender_full"
  proof
    assume a: "60 \<notin> set sender_full \<and> 64 \<notin> set sender_full
        \<and> (\<forall>c. 128 \<le> c \<longrightarrow> 64 \<notin> set (tolower_full lib c))"
    then have "\<forall>n g. \<not> angle_pair_at sender_full n g" by (simp add: no_lt_no_pair)
    then have "angle_group sender_full = None" by (rule angle_group_none)
    then have e: "extract_sender sender_full = sender_full" by (simp add: extract_sender_def)
    have n: "64 \<notin> set (lower lib sender_full)" using a lower_no_at by blast
    show "extract_sender sender_full = sender_full
          \<and> sender_domain (lower lib (extract_sender sender_full)) = []
          \<and> sender_name (lower lib (extract_sender sender_full)) = lower lib sender_full"
      using e n by (simp add: sender_domain_def sender_name_def)
  qed
  have c4: "parse_email_date lib (hdr_date h) = Some d \<and> d < cutoff_date
      \<longrightarrow> trace (snd (handle_headers lib i h s))
            = trace s @ [Classify (extract_sender (hdr_from h)) (hdr_subject h) (hdr_from h)]
          \<and> fst (handle_headers lib i h s)
            = (if fst (is_unnecessary_email_fast lib (extract_sender (hdr_from h))
                        (hdr_subject h) (hdr_from h))
               then Delete i d (hdr_from h) (hdr_subject h)
                      (snd (is_unnecessary_email_fast lib (extract_sender (hdr_from h))
                              (hdr_subject h) (hdr_from h)))
               else Keep i ''not_unnecessary'')"
    by (cases "is_unnecessary_email_fast lib (extract_sender (hdr_from h)) (hdr_subject h)
                 (hdr_from h)")
       (simp add: handle_headers_def Let_def)
  from c1 c2 c3 c4 show ?thesis by (intro conjI)
qed

theorem sender_is_first_angle_pair_witness:
  "angle_pair_at (ascii ''Info Team <x@y.org>'') 10 (ascii ''x@y.org'')
   \<and> extract_sender (ascii ''Info Team <x@y.org>'') = ascii ''x@y.org''
   \<and> (\<forall>n g. \<not> angle_pair_at (ascii ''Mailer-Daemon'') n g)
   \<and> 60 \<notin> set (ascii ''Mailer-Daemon'') \<and> 64 \<notin> set (ascii ''Mailer-Daemon'')
   \<and> extract_sender (ascii ''Mailer-Daemon'') = ascii ''Mailer-Daemon''
   \<and> sender_domain (lower lib_utc (extract_sender (ascii ''Mailer-Daemon''))) = []
   \<and> sender_name (lower lib_utc (extract_sender (ascii ''Mailer-Daemon'')))
       = ascii ''mailer-daemon''
   \<and> parse_email_date lib_utc ''Wed, 01 Jan 2025 00:00:00 +0000'' = Some 1735689600
   \<and> 1735689600 < cutoff_date
   \<and> trace (snd (handle_headers lib_utc ''7''
        \<lparr>hdr_from = ascii ''Info Team <x@y.org>'', hdr_subject = ascii ''Hi'',
          hdr_date = ''Wed, 01 Jan 2025 00:00:00 +0000''\<rparr> init_state))
       = trace init_state
           @ [Classify (ascii ''x@y.org'') (ascii ''Hi'') (ascii ''Info Team <x@y.org>'')]
   \<and> is_unnecessary_email_fast lib_utc (ascii ''x@y.org'') (ascii ''Hi'')
        (ascii ''Info Team <x@y.org>'')
       = (False, ''Not identified as unnecessary'')
   \<and> fst (handle_headers lib_utc ''7''
        \<lparr>hdr_from = ascii ''Info Team <x@y.org>'', hdr_subject = ascii ''Hi'',
          hdr_date = ''Wed, 01 Jan 2025 00:00:00 +0000''\<rparr> init_state)
       = Keep ''7'' ''not_unnecessary''
   \<and> is_unnecessary_email_fast lib_utc (ascii ''Info Team <x@y.org>'') (ascii ''Hi'')
        (ascii ''Info Team <x@y.org>'')
       = (True, ''Sender name contains: team'')
   \<and> is_unnecessary_email_fast lib_utc (ascii ''bob@mailchimp.com'') (ascii ''Hi'')
        (ascii ''Bob <bob@mailchimp.com>'')
       = (True, ''Sender domain: mailchimp.com'')
   \<and> fst (handle_headers lib_utc ''8''
        \<lparr>hdr_from = ascii ''Bob <bob@mailchimp.com>'', hdr_subject = ascii ''Hi'',
          hdr_date = ''Wed, 01 Jan 2025 00:00:00 +0000''\<rparr> init_state)
       = Delete ''8'' 1735689600 (ascii ''Bob <bob@mailchimp.com>'') (ascii ''Hi'')
           ''Sender domain: mailchimp.com''"
proof -
  let ?h = "\<lparr>hdr_from = ascii ''Info Team <x@y.org>'', hdr_subject = ascii ''Hi'',
          hdr_date = ''Wed, 01 Jan 2025 00:00:00 +0000''\<rparr>"
  let ?h2 = "\<lparr>hdr_from = ascii ''Bob <bob@mailchimp.com>'', hdr_subject = ascii ''Hi'',
          hdr_date = ''Wed, 01 Jan 2025 00:00:00 +0000''\<rparr>"
  have p1: "angle_pair_at (ascii ''Info Team <x@y.org>'') 10 (ascii ''x@y.org'')"
    by code_simp
  have lt: "60 \<notin> set (take 10 (ascii ''Info Team <x@y.org>''))"
    by code_simp
  have p2: "\<forall>m<10. \<forall>g'. \<not> angle_pair_at (ascii ''Info Team <x@y.org>'') m g'"
  proof (intro allI impI)
    fix m :: nat and g' assume m: "m < 10"
    have "length (ascii ''Info Team <x@y.org>'') = 19" by code_simp
    then have "take 10 (ascii ''Info Team <x@y.org>'') ! m = ascii ''Info Team <x@y.org>'' ! m"
      and "m < length (take 10 (ascii ''Info Team <x@y.org>''))"
      using m by simp_all
    then have "ascii ''Info Team <x@y.org>'' ! m \<in> set (take 10 (ascii ''Info Team <x@y.org>''))"
      by (metis nth_mem)
    then have "ascii ''Info Team <x@y.org>'' ! m \<noteq> 60" using lt by metis
    then show "\<not> angle_pair_at (ascii ''Info Team <x@y.org>'') m g'"
      by (simp add: angle_pair_at_def)
  qed
  have q: "60 \<notin> set (ascii ''Mailer-Daemon'') \<and> 64 \<notin> set (ascii ''Mailer-Daemon'')"
    by code_simp
  then have q2: "\<forall>n g. \<not> angle_pair_at (ascii ''Mailer-Daemon'') n g"
    by (simp add: no_lt_no_pair)
  have u: "\<forall>c. 128 \<le> c \<longrightarrow> 64 \<notin> set (tolower_full lib_utc c)"
    by (simp add: lib_utc_def py_lib_def example_tolower_def)
  have l: "lower lib_utc (ascii ''Mailer-Daemon'') = ascii ''mailer-daemon''"
    by code_simp
  have p: "parse_email_date lib_utc ''Wed, 01 Jan 2025 00:00:00 +0000'' = Some 1735689600"
    by code_simp
  have c: "1735689600 < cutoff_date"
    by code_simp
  have pc: "parse_email_date lib_utc (hdr_date ?h) = Some 1735689600 \<and> 1735689600 < cutoff_date"
    using p c by simp
  have pc2: "parse_email_date lib_utc (hdr_date ?h2) = Some 1735689600 \<and> 1735689600 < cutoff_date"
    using p c by simp
  have v1: "is_unnecessary_email_fast lib_utc (ascii ''x@y.org'') (ascii ''Hi'')
        (ascii ''Info Team <x@y.org>'')
       = (False, ''Not identified as unnecessary'')"
    by code_simp
  have v2: "is_unnecessary_email_fast lib_utc (ascii ''Info Team <x@y.org>'') (ascii ''Hi'')
        (ascii ''Info Team <x@y.org>'')
       = (True, ''Sender name contains: team'')"
    by code_simp
  have v3: "is_unnecessary_email_fast lib_utc (ascii ''bob@mailchimp.com'') (ascii ''Hi'')
        (ascii ''Bob <bob@mailchimp.com>'')
       = (True, ''Sender domain: mailchimp.com'')"
    by code_simp
  have x3: "extract_sender (ascii ''Bob <bob@mailchimp.com>'') = ascii ''bob@mailchimp.com''"
    by code_simp
  note t1 = sender_is_first_angle_pair[where sender_full = "ascii ''Info Team <x@y.org>''"
      and n = 10 and g = "ascii ''x@y.org''" and lib = lib_utc and h = ?h
      and d = 1735689600 and i = "''7''" and s = init_state]
  note t2 = sender_is_first_angle_pair[where sender_full = "ascii ''Mailer-Daemon''"
      and n = 0 and g = "ascii ''x''" and lib = lib_utc and h = ?h2
      and d = 1735689600 and i = "''8''" and s = init_state]
  have e1: "extract_sender (ascii ''Info Team <x@y.org>'') = ascii ''x@y.org''"
    using t1 p1 p2 by blast
  have e2: "extract_sender (ascii ''Mailer-Daemon'') = ascii ''Mailer-Daemon''
          \<and> sender_domain (lower lib_utc (extract_sender (ascii ''Mailer-Daemon''))) = []
          \<and> sender_name (lower lib_utc (extract_sender (ascii ''Mailer-Daemon'')))
              = lower lib_utc (ascii ''Mailer-Daemon'')"
    using t2 q u by blast
  have e3: "trace (snd (handle_headers lib_utc ''7'' ?h init_state))
       = trace init_state @ [Classify (extract_sender (hdr_from ?h)) (hdr_subject ?h) (hdr_from ?h)]
     \<and> fst (handle_headers lib_utc ''7'' ?h init_state)
            = (if fst (is_unnecessary_email_fast lib_utc (extract_sender (hdr_from ?h))
                        (hdr_subject ?h) (hdr_from ?h))
               then Delete ''7'' 1735689600 (hdr_from ?h) (hdr_subject ?h)
                      (snd (is_unnecessary_email_fast lib_utc (extract_sender (hdr_from ?h))
                              (hdr_subject ?h) (hdr_from ?h)))
               else Keep ''7'' ''not_unnecessary'')"
    using t1 pc by blast
  have e4: "fst (handle_headers lib_utc ''8'' ?h2 init_state)
            = (if fst (is_unnecessary_email_fast lib_utc (extract_sender (hdr_from ?h2))
                        (hdr_subject ?h2) (hdr_from ?h2))
               then Delete ''8'' 1735689600 (hdr_from ?h2) (hdr_subject ?h2)
                      (snd (is_unnecessary_email_fast lib_utc (extract_sender (hdr_from ?h2))
                              (hdr_subject ?h2) (hdr_from ?h2)))
               else Keep ''8'' ''not_unnecessary'')"
    using t2 pc2 by blast
  have f1: "trace (snd (handle_headers lib_utc ''7'' ?h init_state))
       = trace init_state
           @ [Classify (ascii ''x@y.org'') (ascii ''Hi'') (ascii ''Info Team <x@y.org>'')]"
    using e3 e1 by simp
  have f2: "fst (handle_headers lib_utc ''7'' ?h init_state) = Keep ''7'' ''not_unnecessary''"
    using e3 e1 v1 by simp
  have f3: "fst (handle_headers lib_utc ''8'' ?h2 init_state)
       = Delete ''8'' 1735689600 (ascii ''Bob <bob@mailchimp.com>'') (ascii ''Hi'')
           ''Sender domain: mailchimp.com''"
    using e4 x3 v3 by simp
  have g2: "sender_name (lower lib_utc (extract_sender (ascii ''Mailer-Daemon'')))
       = ascii ''mailer-daemon''"
    using e2 l by metis
  from p1 e1 q2 q e2 g2 p c f1 v1 f2 v2 v3 f3 show ?thesis by blast
qed

section \<open>The scan: counters, batches and the flat scan\<close>

lemma with_counts_same [simp]:
  "with_counts (emails_to_delete s) (deleted_count s) (kept_count s) (processed_count s) s = s"
  by (simp add: with_counts_def)

lemma with_counts_sel [simp]:
  "mail (with_counts e d k p s) = mail s"
  "stop_requested (with_counts e d k p s) = stop_requested s"
  "clock (with_counts e d k p s) = clock s"
  "trace (with_counts e d k p s) = trace s"
  "emails_to_delete (with_counts e d k p s) = e"
  "deleted_count (with_counts e d k p s) = d"
  "kept_count (with_counts e d k p s) = k"
  "processed_count (with_counts e d k p s) = p"
  by (simp_all add: with_counts_def)

lemma with_counts_twice [simp]:
  "with_counts e d k p (with_counts e' d' k' p' s) = with_counts e d k p s"
  by (simp add: with_counts_def)

lemma consume_results_counts:
  "consume_results rs s =
     with_counts (emails_to_delete s @ filter is_delete rs)
       (deleted_count s + length (filter is_delete rs))
       (kept_count s + length (filter (\<lambda>r. \<not> is_delete r) rs))
       (processed_count s + length rs) s"
proof (induction rs arbitrary: s)
  case Nil
  then show ?case by simp
next
  case (Cons r rs)
  show ?case
    by (cases r) (simp_all add: Cons.IH Let_def with_counts_def)
qed

lemma tick_counts: "tick env ev (with_counts e d k p s) = with_counts e d k p (tick env ev s)"
  by (simp add: tick_def with_counts_def)

lemma call_counts:
  "call env ev (with_counts e d k p s) = (fst (call env ev s), with_counts e d k p (snd (call env ev s)))"
  by (simp add: call_def tick_counts)

lemma mail_call_counts:
  "mail_call env ev (with_counts e d k p s)
     = (fst (mail_call env ev s), with_counts e d k p (snd (mail_call env ev s)))"
  by (simp add: mail_call_def call_counts)

lemma do_fetch_counts:
  "do_fetch env i (with_counts e d k p s)
     = (fst (do_fetch env i s), with_counts e d k p (snd (do_fetch env i s)))"
  by (simp add: do_fetch_def tick_counts)

lemma mail_upd_counts: "(with_counts e d k p s)\<lparr>mail := b\<rparr> = with_counts e d k p (s\<lparr>mail := b\<rparr>)"
  by (simp add: with_counts_def)



lemma connect_try_counts:
  "connect_try env a (with_counts e d k p s)
     = (fst (connect_try env a s), with_counts e d k p (snd (connect_try env a s)))"
  by (simp add: connect_try_def call_counts mail_upd_counts Let_def split_beta)

lemma connect_except_counts:
  "connect_except env (with_counts e d k p s) = with_counts e d k p (connect_except env s)"
  by (simp add: connect_except_def call_counts mail_upd_counts)

lemma connect_attempts_counts:
  "connect_attempts env as (with_counts e d k p s)
     = (fst (connect_attempts env as s), with_counts e d k p (snd (connect_attempts env as s)))"
proof (induction as arbitrary: s)
  case Nil
  then show ?case by simp
next
  case (Cons a as)
  show ?case
    by (cases "connect_try env a s")
       (simp add: connect_try_counts connect_except_counts Cons.IH Let_def split: bool.splits)
qed

lemma reconnect_if_needed_counts:
  "reconnect_if_needed env (with_counts e d k p s)
     = (fst (reconnect_if_needed env s), with_counts e d k p (snd (reconnect_if_needed env s)))"
  by (cases "mail_call env Noop s")
     (simp add: reconnect_if_needed_def connect_to_gmail_def mail_call_counts connect_attempts_counts split: bool.splits)

lemma trace_upd_counts:
  "(with_counts e d k p s)\<lparr>trace := t\<rparr> = with_counts e d k p (s\<lparr>trace := t\<rparr>)"
  by (simp add: with_counts_def)

lemma handle_headers_counts:
  "handle_headers lib i h (with_counts e d k p s)
     = (fst (handle_headers lib i h s), with_counts e d k p (snd (handle_headers lib i h s)))"
  by (simp add: handle_headers_def trace_upd_counts Let_def split_beta split: option.splits)


lemma fetch_attempts_counts:
  "fetch_attempts lib env i as (with_counts e d k p s)
     = (fst (fetch_attempts lib env i as s), with_counts e d k p (snd (fetch_attempts lib env i as s)))"
proof (induction as arbitrary: s)
  case Nil
  then show ?case by simp
next
  case (Cons a as)
  show ?case
  proof (cases "a > 0")
    case True
    show ?thesis
    proof (cases "reconnect_if_needed env s")
      case (Pair ok s1)
      show ?thesis
      proof (cases ok)
        case False
        with Pair True show ?thesis
          by (simp add: reconnect_if_needed_counts Cons.IH)
      next
        case ok: True
        show ?thesis
        proof (cases "do_fetch env i s1")
          case f: (Pair rep s2)
          show ?thesis
            using Pair True ok f
            by (cases rep)
               (simp_all add: reconnect_if_needed_counts do_fetch_counts handle_headers_counts
                  Cons.IH split_beta)
        qed
      qed
    qed
  next
    case False
    show ?thesis
    proof (cases "do_fetch env i s")
      case f: (Pair rep s2)
      show ?thesis
        using False f
        by (cases rep)
           (simp_all add: do_fetch_counts handle_headers_counts Cons.IH split_beta)
    qed
  qed
qed

lemma process_email_counts:
  "process_email lib env i (with_counts e d k p s)
     = (fst (process_email lib env i s), with_counts e d k p (snd (process_email lib env i s)))"
  by (simp add: process_email_def fetch_attempts_counts)

lemma scan_flat_counts:
  "scan_flat lib env ids (with_counts e d k p s)
     = (fst (scan_flat lib env ids s), with_counts e d k p (snd (scan_flat lib env ids s)))"
proof (induction ids arbitrary: s)
  case Nil
  then show ?case by simp
next
  case (Cons i ids)
  show ?case
    by (cases "process_email lib env i s")
       (simp add: process_email_counts Cons.IH split_beta)
qed

lemma scan_flat_stopped: "stop_requested s \<Longrightarrow> scan_flat lib env ids s = ([], s)"
  by (cases ids) simp_all

lemma process_email_loop_acc:
  "process_email_loop lib env ids acc s
     = (acc @ fst (scan_flat lib env ids s), snd (scan_flat lib env ids s))"
proof (induction ids arbitrary: acc s)
  case Nil
  then show ?case by simp
next
  case (Cons i ids)
  show ?case
    by (cases "process_email lib env i s") (simp add: Cons.IH split_beta)
qed

lemma process_email_batch_flat:
  "process_email_batch lib env b s = scan_flat lib env b s"
  by (simp add: process_email_batch_def process_email_loop_acc)


lemma scan_flat_keeps_counts:
  "emails_to_delete (snd (scan_flat lib env ids s)) = emails_to_delete s"
  "deleted_count (snd (scan_flat lib env ids s)) = deleted_count s"
  "kept_count (snd (scan_flat lib env ids s)) = kept_count s"
  "processed_count (snd (scan_flat lib env ids s)) = processed_count s"
proof -
  let ?c = "with_counts (emails_to_delete s) (deleted_count s) (kept_count s) (processed_count s)"
  have "snd (scan_flat lib env ids (?c s)) = ?c (snd (scan_flat lib env ids s))"
    by (simp only: scan_flat_counts snd_conv)
  then have e: "snd (scan_flat lib env ids s) = ?c (snd (scan_flat lib env ids s))"
    by simp
  show "emails_to_delete (snd (scan_flat lib env ids s)) = emails_to_delete s"
    by (subst e) (simp only: with_counts_sel)
  show "deleted_count (snd (scan_flat lib env ids s)) = deleted_count s"
    by (subst e) (simp only: with_counts_sel)
  show "kept_count (snd (scan_flat lib env ids s)) = kept_count s"
    by (subst e) (simp only: with_counts_sel)
  show "processed_count (snd (scan_flat lib env ids s)) = processed_count s"
    by (subst e) (simp only: with_counts_sel)
qed

lemma scan_flat_append:
  "scan_flat lib env (xs @ ys) s =
     (fst (scan_flat lib env xs s) @ fst (scan_flat lib env ys (snd (scan_flat lib env xs s))),
      snd (scan_flat lib env ys (snd (scan_flat lib env xs s))))"
proof (induction xs arbitrary: s)
  case Nil
  then show ?case by simp
next
  case (Cons i xs)
  show ?case
  proof (cases "stop_requested s")
    case True
    then show ?thesis by (simp add: scan_flat_stopped)
  next
    case False
    then show ?thesis
      by (cases "process_email lib env i s") (simp add: Cons.IH split_beta)
  qed
qed

lemma consume_results_append:
  "consume_results (a @ b) s = consume_results b (consume_results a s)"
proof (induction a arbitrary: s)
  case Nil
  then show ?case by simp
next
  case (Cons r a)
  show ?case by (cases r) (simp_all add: Cons.IH Let_def)
qed

lemma scan_flat_consume:
  "scan_flat lib env ids (consume_results rs s)
     = (fst (scan_flat lib env ids s), consume_results rs (snd (scan_flat lib env ids s)))"
  by (simp add: consume_results_counts[of rs s]
      consume_results_counts[of rs "snd (scan_flat lib env ids s)"]
      scan_flat_counts scan_flat_keeps_counts)

lemma scan_batches_flat:
  "scan_batches lib env bs s =
     consume_results (fst (scan_flat lib env (concat bs) s)) (snd (scan_flat lib env (concat bs) s))"
proof (induction bs arbitrary: s)
  case Nil
  then show ?case by simp
next
  case (Cons b bs)
  show ?case
  proof (cases "stop_requested s")
    case True
    then show ?thesis by (simp add: scan_flat_stopped)
  next
    case False
    then show ?thesis
      by (simp add: process_email_batch_flat split_beta Cons.IH scan_flat_consume
          scan_flat_append consume_results_append)
  qed
qed

declare fetch_email_headers_batch.simps [simp del]

lemma concat_batches:
  "0 < n \<Longrightarrow> concat (fetch_email_headers_batch xs n) = xs"
proof (induction xs n rule: fetch_email_headers_batch.induct)
  case (1 email_ids batch_size)
  show ?case
  proof (cases "email_ids = []")
    case True
    then show ?thesis by (simp add: fetch_email_headers_batch.simps)
  next
    case False
    with 1 show ?thesis
      by (subst fetch_email_headers_batch.simps) simp
  qed
qed

lemma batches_sizes:
  "b \<in> set (fetch_email_headers_batch xs n) \<Longrightarrow> b \<noteq> [] \<and> length b \<le> n"
proof (induction xs n rule: fetch_email_headers_batch.induct)
  case (1 email_ids batch_size)
  show ?case
  proof (cases "email_ids = [] \<or> batch_size = 0")
    case True
    with 1(2) show ?thesis by (simp add: fetch_email_headers_batch.simps)
  next
    case False
    from 1(2) have "b = take batch_size email_ids
        \<or> b \<in> set (fetch_email_headers_batch (drop batch_size email_ids) batch_size)"
      using False by (subst (asm) fetch_email_headers_batch.simps) simp
    then show ?thesis
    proof
      assume "b = take batch_size email_ids"
      then show ?thesis using False by simp
    next
      assume "b \<in> set (fetch_email_headers_batch (drop batch_size email_ids) batch_size)"
      then show ?thesis using 1(1) False by simp
    qed
  qed
qed


section \<open>The events of the scan\<close>

lemma grows_refl: "grows P s s"
  by (simp add: grows_def)

lemma grows_trans: "grows P s s1 \<Longrightarrow> grows P s1 s2 \<Longrightarrow> grows P s s2"
  by (auto simp: grows_def)

lemma grows_same_trace: "trace s2 = trace s1 \<Longrightarrow> grows P s s1 \<Longrightarrow> grows P s s2"
  by (simp add: grows_def)

lemma grows_tick: "P ev \<Longrightarrow> grows P s (tick env ev s)"
  by (simp add: grows_def tick_def)

lemma grows_call: "P ev \<Longrightarrow> grows P s (snd (call env ev s))"
  by (simp add: call_def grows_tick)

lemma grows_mail_call: "P ev \<Longrightarrow> grows P s (snd (mail_call env ev s))"
  by (simp add: mail_call_def grows_call grows_refl)

lemma grows_do_fetch: "P (Fetch i) \<Longrightarrow> grows P s (snd (do_fetch env i s))"
  by (simp add: do_fetch_def grows_tick grows_refl)

lemma grows_mono: "grows P s s' \<Longrightarrow> (\<And>ev. P ev \<Longrightarrow> Q ev) \<Longrightarrow> grows Q s s'"
  by (auto simp: grows_def list_all_iff)

lemma conn_event_simps [simp]:
  "conn_event Getpass" "conn_event Logout" "conn_event Open_ssl" "conn_event Login"
  "conn_event Select" "conn_event Noop" "\<not> conn_event (Fetch i)" "\<not> conn_event (Classify a b c)"
  "\<not> conn_event (Store i)" "\<not> conn_event Expunge" "\<not> conn_event (Input r)"
  by (simp_all add: conn_event_def)

lemma scan_event_simps [simp]:
  "scan_event Getpass" "scan_event Logout" "scan_event Open_ssl" "scan_event Login"
  "scan_event Select" "scan_event Noop" "scan_event (Fetch i)" "scan_event (Classify a b c)"
  "\<not> scan_event (Store i)" "\<not> scan_event Expunge" "\<not> scan_event (Input r)"
  by (simp_all add: scan_event_def is_deletion_def is_input_def)

lemma scan_ok_scan_event: "scan_ok lib env ev \<Longrightarrow> scan_event ev"
  by (cases ev) (auto simp: scan_ok_def classified_old_def is_fetch_def)

lemma conn_scan_ok: "conn_event ev \<Longrightarrow> scan_ok lib env ev"
  by (simp add: scan_ok_def)

lemma grows_connect_try: "grows conn_event s (snd (connect_try env a s))"
proof -
  define s0 where "s0 = (if a = 0 then snd (call env Getpass s) else s)"
  define s1 where "s1 = (if mail s0 then snd (call env Logout s0) else s0)"
  define s2 where "s2 = snd (call env Open_ssl s1)"
  define s3 where "s3 = snd (call env Login (s2\<lparr>mail := True\<rparr>))"
  define s4 where "s4 = snd (call env Select s3)"
  have g0: "grows conn_event s s0" by (simp add: s0_def grows_call grows_refl)
  have "grows conn_event s0 s1" by (simp add: s1_def grows_call grows_refl)
  then have g1: "grows conn_event s s1" by (rule grows_trans[OF g0])
  have "grows conn_event s1 s2" by (simp add: s2_def grows_call)
  then have g2: "grows conn_event s s2" by (rule grows_trans[OF g1])
  have "grows conn_event (s2\<lparr>mail := True\<rparr>) s3" by (simp add: s3_def grows_call)
  then have "grows conn_event s2 s3" by (simp add: grows_def)
  then have g3: "grows conn_event s s3" by (rule grows_trans[OF g2])
  have "grows conn_event s3 s4" by (simp add: s4_def grows_call)
  then have g4: "grows conn_event s s4" by (rule grows_trans[OF g3])
  have "snd (connect_try env a s) = s0 \<or> snd (connect_try env a s) = s2
      \<or> snd (connect_try env a s) = s3 \<or> snd (connect_try env a s) = s4"
    unfolding s0_def s1_def s2_def s3_def s4_def
    by (simp add: connect_try_def Let_def split_beta)
  then show ?thesis using g0 g2 g3 g4 by auto
qed

lemma grows_connect_except: "grows conn_event s (connect_except env s)"
proof (cases "mail s")
  case True
  have "grows conn_event s (snd (call env Logout s))" by (simp add: grows_call)
  then show ?thesis using True by (simp add: connect_except_def grows_def)
next
  case False
  then show ?thesis by (simp add: connect_except_def grows_refl)
qed

lemma grows_connect_attempts: "grows conn_event s (snd (connect_attempts env as s))"
proof (induction as arbitrary: s)
  case Nil
  then show ?case by (simp add: grows_refl)
next
  case (Cons a as)
  obtain ok s1 where t: "connect_try env a s = (ok, s1)" by (cases "connect_try env a s")
  have g1: "grows conn_event s s1" using grows_connect_try[of s env a] t by simp
  have g2: "grows conn_event s (connect_except env s1)"
    by (rule grows_trans[OF g1 grows_connect_except])
  have g3: "grows conn_event s (snd (connect_attempts env as (connect_except env s1)))"
    by (rule grows_trans[OF g2 Cons.IH])
  show ?case using t g1 g2 g3 by (simp add: Let_def split: bool.splits)
qed

lemma grows_reconnect: "grows conn_event s (snd (reconnect_if_needed env s))"
proof -
  obtain r s1 where m: "mail_call env Noop s = (r, s1)" by (cases "mail_call env Noop s")
  have g1: "grows conn_event s s1" using grows_mail_call[of conn_event Noop s env] m by simp
  have g2: "grows conn_event s (snd (connect_attempts env [0, 1, 2] s1))"
    by (rule grows_trans[OF g1 grows_connect_attempts])
  show ?thesis using m g1 g2
    by (simp add: reconnect_if_needed_def connect_to_gmail_def split: bool.splits)
qed

lemma grows_handle_headers:
  "fetch_reply env n = FetchOK h \<Longrightarrow> grows (scan_ok lib env) s (snd (handle_headers lib i h s))"
proof (cases "parse_email_date lib (hdr_date h)")
  case None
  then show ?thesis by (simp add: handle_headers_def Let_def grows_refl)
next
  case (Some d)
  assume f: "fetch_reply env n = FetchOK h"
  show ?thesis
  proof (cases "cutoff_date \<le> d")
    case True
    with Some show ?thesis by (simp add: handle_headers_def Let_def grows_refl)
  next
    case False
    then have "classified_old lib env
        (Classify (extract_sender (hdr_from h)) (hdr_subject h) (hdr_from h))"
      unfolding classified_old_def using f Some
      by (intro exI[of _ n] exI[of _ h] exI[of _ d]) simp
    then have "scan_ok lib env
        (Classify (extract_sender (hdr_from h)) (hdr_subject h) (hdr_from h))"
      by (simp add: scan_ok_def)
    with Some False show ?thesis
      by (simp add: handle_headers_def Let_def split_beta grows_def)
  qed
qed

lemma do_fetch_ok:
  "do_fetch env i s = (FetchOK h, s') \<Longrightarrow>
     mail s \<and> fetch_reply env (clock s) = FetchOK h \<and> s' = tick env (Fetch i) s"
  by (auto simp: do_fetch_def split: if_splits)

lemma grows_fetch_attempts: "grows (scan_ok lib env) s (snd (fetch_attempts lib env i as s))"
proof (induction as arbitrary: s)
  case Nil
  then show ?case by (simp add: grows_refl)
next
  case (Cons a as)
  let ?r = "if a > 0 then reconnect_if_needed env s else (True, s)"
  obtain ok s1 where r: "?r = (ok, s1)" by (cases ?r)
  have "grows conn_event s s1"
    using r grows_reconnect[of s env] by (auto simp: grows_refl split: if_splits)
  then have g1: "grows (scan_ok lib env) s s1" by (rule grows_mono) (rule conn_scan_ok)
  obtain rep s2 where f: "do_fetch env i s1 = (rep, s2)" by (cases "do_fetch env i s1")
  have "grows (scan_ok lib env) s1 (snd (do_fetch env i s1))"
    by (rule grows_do_fetch) (simp add: scan_ok_def is_fetch_def)
  then have g2: "grows (scan_ok lib env) s s2"
    using grows_trans[OF g1] f by simp
  have g3: "\<And>h. rep = FetchOK h \<Longrightarrow> grows (scan_ok lib env) s (snd (handle_headers lib i h s2))"
  proof -
    fix h assume "rep = FetchOK h"
    with f have "fetch_reply env (clock s1) = FetchOK h" using do_fetch_ok by blast
    then have "grows (scan_ok lib env) s2 (snd (handle_headers lib i h s2))"
      by (rule grows_handle_headers)
    then show "grows (scan_ok lib env) s (snd (handle_headers lib i h s2))"
      by (rule grows_trans[OF g2])
  qed
  have g4: "grows (scan_ok lib env) s (snd (fetch_attempts lib env i as s1))"
    by (rule grows_trans[OF g1 Cons.IH])
  have g5: "grows (scan_ok lib env) s (snd (fetch_attempts lib env i as s2))"
    by (rule grows_trans[OF g2 Cons.IH])
  show ?case
  proof (cases ok)
    case False
    then show ?thesis using r g4 by (simp split: if_splits)
  next
    case True
    then show ?thesis using r f g2 g3 g5
      by (cases rep) (simp_all add: split_beta split: if_splits)
  qed
qed

lemma grows_process_email: "grows (scan_ok lib env) s (snd (process_email lib env i s))"
  unfolding process_email_def by (rule grows_fetch_attempts)

lemma grows_scan_flat_ok: "grows (scan_ok lib env) s (snd (scan_flat lib env ids s))"
proof (induction ids arbitrary: s)
  case Nil
  then show ?case by (simp add: grows_refl)
next
  case (Cons i ids)
  have g2: "grows (scan_ok lib env) s
      (snd (scan_flat lib env ids (snd (process_email lib env i s))))"
    by (rule grows_trans[OF grows_process_email Cons.IH])
  show ?case using g2 by (simp add: split_beta grows_refl)
qed

lemma grows_scan_flat: "grows scan_event s (snd (scan_flat lib env ids s))"
  by (rule grows_mono[OF grows_scan_flat_ok]) (rule scan_ok_scan_event)

lemma trace_consume_results [simp]: "trace (consume_results rs s) = trace s"
  by (simp add: consume_results_counts)

lemma grows_scan_batches: "grows scan_event s (scan_batches lib env bs s)"
  using grows_scan_flat[of s lib env "concat bs"]
  by (simp add: scan_batches_flat grows_def)

section \<open>The deletion loop\<close>

lemma delete_batch_nomail:
  "\<not> mail s \<Longrightarrow> delete_batch env b (su, fa) s = ((su, fa + length b), s)"
  by (induction b arbitrary: fa) (simp_all add: mail_call_def)

lemma mail_tick [simp]: "mail (tick env ev s) = mail s"
  by (simp add: tick_def)

lemma clock_tick [simp]: "clock (tick env ev s) = clock s + 1"
  by (simp add: tick_def)

lemma trace_tick [simp]: "trace (tick env ev s) = trace s @ [ev]"
  by (simp add: tick_def)

lemma stores_ok_Suc_front:
  "stores_ok env c (Suc n) = (if raises env c then 0 else 1) + stores_ok env (Suc c) n"
proof -
  have "[0..<Suc n] = 0 # map Suc [0..<n]"
    by (simp add: upt_conv_Cons map_Suc_upt del: upt_Suc)
  then show ?thesis
    by (simp add: stores_ok_def filter_map o_def del: upt_Suc)
qed

lemma delete_batch_mail:
  "mail s \<Longrightarrow>
   delete_batch env b (su, fa) s = ((su', fa'), s') \<Longrightarrow>
     su' = su + stores_ok env (clock s) (length b)
     \<and> su' + fa' = su + fa + length b
     \<and> trace s' = trace s @ map (\<lambda>e. Store (result_id e)) b
     \<and> clock s' = clock s + length b \<and> mail s'"
proof (induction b arbitrary: su fa s)
  case Nil
  then show ?case by (simp add: stores_ok_def)
next
  case (Cons e b)
  let ?s1 = "tick env (Store (result_id e)) s"
  have m1: "mail ?s1" using Cons.prems(1) by simp
  show ?case
  proof (cases "raises env (clock s)")
    case True
    with Cons.prems have "delete_batch env b (su, fa + 1) ?s1 = ((su', fa'), s')"
      by (simp add: mail_call_def call_def)
    from Cons.IH[OF m1 this] True show ?thesis
      by (simp add: stores_ok_Suc_front)
  next
    case False
    with Cons.prems have "delete_batch env b (su + 1, fa) ?s1 = ((su', fa'), s')"
      by (simp add: mail_call_def call_def)
    from Cons.IH[OF m1 this] False show ?thesis
      by (simp add: stores_ok_Suc_front)
  qed
qed

lemma stores_ok_add:
  "stores_ok env c (n + m) = stores_ok env c n + stores_ok env (c + n) m"
proof (induction n arbitrary: c)
  case 0
  then show ?case by (simp add: stores_ok_def)
next
  case (Suc n)
  have "stores_ok env c (Suc n + m) = stores_ok env c (Suc (n + m))" by simp
  also have "\<dots> = (if raises env c then 0 else 1) + stores_ok env (Suc c) (n + m)"
    by (rule stores_ok_Suc_front)
  also have "\<dots> = (if raises env c then 0 else 1) + (stores_ok env (Suc c) n + stores_ok env (Suc c + n) m)"
    by (simp only: Suc.IH)
  also have "\<dots> = stores_ok env c (Suc n) + stores_ok env (c + Suc n) m"
    by (simp add: stores_ok_Suc_front)
  finally show ?case .
qed

lemma delete_batches_nomail:
  "\<not> mail s \<Longrightarrow> delete_batches env bs (su, fa) s = ((su, fa + length (concat bs)), s)"
  by (induction bs arbitrary: fa) (simp_all add: delete_batch_nomail)

lemma delete_batches_mail:
  "mail s \<Longrightarrow>
   delete_batches env bs (su, fa) s = ((su', fa'), s') \<Longrightarrow>
     su' = su + stores_ok env (clock s) (length (concat bs))
     \<and> su' + fa' = su + fa + length (concat bs)
     \<and> trace s' = trace s @ map (\<lambda>e. Store (result_id e)) (concat bs)
     \<and> clock s' = clock s + length (concat bs) \<and> mail s'"
proof (induction bs arbitrary: su fa s)
  case Nil
  then show ?case by (simp add: stores_ok_def)
next
  case (Cons b bs)
  obtain su1 fa1 s1 where d: "delete_batch env b (su, fa) s = ((su1, fa1), s1)"
    by (metis surj_pair)
  note b1 = delete_batch_mail[OF Cons.prems(1) d]
  from Cons.prems(2) d have "delete_batches env bs (su1, fa1) s1 = ((su', fa'), s')" by simp
  from Cons.IH[OF _ this] b1 show ?case
    by (simp add: stores_ok_add)
qed


lemma stores_ok_all: "(\<forall>k<n. \<not> raises env (c + k)) \<Longrightarrow> stores_ok env c n = n"
proof -
  assume a: "\<forall>k<n. \<not> raises env (c + k)"
  have "filter (\<lambda>k. \<not> raises env (c + k)) [0..<n] = [0..<n]"
    using a by (intro filter_True) simp
  then show ?thesis by (simp add: stores_ok_def)
qed

lemma stores_ok_cong:
  "(\<forall>k<n. raises env' (c + k) = raises env (c + k)) \<Longrightarrow> stores_ok env' c n = stores_ok env c n"
proof -
  assume a: "\<forall>k<n. raises env' (c + k) = raises env (c + k)"
  have "filter (\<lambda>k. \<not> raises env' (c + k)) [0..<n] = filter (\<lambda>k. \<not> raises env (c + k)) [0..<n]"
    using a by (intro filter_cong) simp_all
  then show ?thesis by (simp add: stores_ok_def)
qed

lemma stores_ok_le: "stores_ok env c n \<le> n"
  unfolding stores_ok_def by (metis length_filter_le length_upt diff_zero)

lemma delete_emails_fast_nomail:
  "\<not> mail s \<Longrightarrow>
   delete_emails_fast env s
     = (\<lparr>successful = 0, failed = length (emails_to_delete s), expunge_failed = True\<rparr>, s)"
  by (simp add: delete_emails_fast_def delete_batches_nomail mail_call_def concat_batches)

lemma delete_emails_fast_mail:
  assumes m: "mail s"
  shows "successful (fst (delete_emails_fast env s))
           = stores_ok env (clock s) (length (emails_to_delete s))"
    and "successful (fst (delete_emails_fast env s)) + failed (fst (delete_emails_fast env s))
           = length (emails_to_delete s)"
    and "expunge_failed (fst (delete_emails_fast env s))
           = raises env (clock s + length (emails_to_delete s))"
    and "trace (snd (delete_emails_fast env s))
           = trace s @ map (\<lambda>e. Store (result_id e)) (emails_to_delete s) @ [Expunge]"
proof -
  let ?bs = "fetch_email_headers_batch (emails_to_delete s) 50"
  obtain su fa s1 where d: "delete_batches env ?bs (0, 0) s = ((su, fa), s1)"
    by (metis surj_pair)
  note f = delete_batches_mail[OF m d]
  have c: "concat ?bs = emails_to_delete s" by (simp add: concat_batches)
  have e: "delete_emails_fast env s =
      (\<lparr>successful = su, failed = fa, expunge_failed = raises env (clock s1)\<rparr>,
       tick env Expunge s1)"
    using d f by (simp add: delete_emails_fast_def mail_call_def call_def)
  show "successful (fst (delete_emails_fast env s))
           = stores_ok env (clock s) (length (emails_to_delete s))"
    using e f c by simp
  show "successful (fst (delete_emails_fast env s)) + failed (fst (delete_emails_fast env s))
           = length (emails_to_delete s)"
    using e f c by simp
  show "expunge_failed (fst (delete_emails_fast env s))
           = raises env (clock s + length (emails_to_delete s))"
    using e f c by simp
  show "trace (snd (delete_emails_fast env s))
           = trace s @ map (\<lambda>e. Store (result_id e)) (emails_to_delete s) @ [Expunge]"
    using e f c by simp
qed

lemma batches_full:
  "Suc j < length (fetch_email_headers_batch xs n) \<Longrightarrow>
     length (fetch_email_headers_batch xs n ! j) = n"
proof (induction xs n arbitrary: j rule: fetch_email_headers_batch.induct)
  case (1 email_ids batch_size)
  let ?rest = "fetch_email_headers_batch (drop batch_size email_ids) batch_size"
  have ne: "\<not> (email_ids = [] \<or> batch_size = 0)"
    using 1(2) by (subst (asm) fetch_email_headers_batch.simps) (simp split: if_splits)
  then have eq: "fetch_email_headers_batch email_ids batch_size = take batch_size email_ids # ?rest"
    by (subst fetch_email_headers_batch.simps) simp
  show ?case
  proof (cases j)
    case 0
    with 1(2) eq have "?rest \<noteq> []" by auto
    then have "drop batch_size email_ids \<noteq> []"
      by (subst (asm) fetch_email_headers_batch.simps) (simp split: if_splits)
    then show ?thesis using 0 eq by simp
  next
    case (Suc k)
    with 1(2) eq have "Suc k < length ?rest" by simp
    from 1(1)[OF ne this] show ?thesis using Suc eq by simp
  qed
qed


section \<open>The confirmation\<close>

lemma delete_trace_ext:
  "\<exists>rest. trace (snd (delete_emails_fast env s)) = trace s @ rest"
  by (cases "mail s") (simp_all add: delete_emails_fast_mail delete_emails_fast_nomail)

lemma is_deletion_simps [simp]:
  "is_deletion (Store i)" "is_deletion Expunge" "\<not> is_deletion (Input r)"
  by (simp_all add: is_deletion_def)

lemma show_analysis_results_trace:
  "\<exists>post. trace (snd (show_analysis_results lib env total_emails dry_run s)) = trace s @ post
     \<and> (dry_run \<longrightarrow> post = [])
     \<and> (list_ex is_deletion post \<longrightarrow>
          \<not> dry_run \<and> 0 < deleted_count s
          \<and> (\<exists>confirm rest. post = Input (Some confirm) # rest
                \<and> lower lib confirm = ascii ''yes''))"
proof (cases "dry_run \<or> deleted_count s = 0")
  case True
  then have "trace (snd (show_analysis_results lib env total_emails dry_run s)) = trace s @ []"
    by (auto simp: show_analysis_results_def)
  moreover have "\<not> list_ex is_deletion []" by simp
  ultimately show ?thesis using True by blast
next
  case False
  then have nd: "\<not> dry_run" and pos: "0 < deleted_count s" by simp_all
  let ?s1 = "tick env (Input (input_reply env (clock s))) s"
  show ?thesis
  proof (cases "input_reply env (clock s)")
    case None
    then have "trace (snd (show_analysis_results lib env total_emails dry_run s)) = trace s @ [Input None]"
      using nd pos by (simp add: show_analysis_results_def do_input_def)
    moreover have "\<not> list_ex is_deletion [Input None]" by simp
    ultimately show ?thesis using nd by blast
  next
    case (Some confirm)
    show ?thesis
    proof (cases "lower lib confirm = ascii ''yes''")
      case True
      obtain rest where r: "trace (snd (delete_emails_fast env ?s1)) = trace ?s1 @ rest"
        using delete_trace_ext by blast
      have "trace (snd (show_analysis_results lib env total_emails dry_run s))
          = trace s @ Input (Some confirm) # rest"
        using nd pos Some True r by (simp add: show_analysis_results_def do_input_def)
      then show ?thesis using nd pos True by blast
    next
      case False
      then have "trace (snd (show_analysis_results lib env total_emails dry_run s))
          = trace s @ [Input (Some confirm)]"
        using nd pos Some by (simp add: show_analysis_results_def do_input_def)
      moreover have "\<not> list_ex is_deletion [Input (Some confirm)]" by simp
      ultimately show ?thesis using nd by blast
    qed
  qed
qed

section \<open>The events of one message\<close>

lemma process_email_first_ok:
  "mail s \<Longrightarrow> fetch_reply env (clock s) = FetchOK h \<Longrightarrow>
     process_email lib env i s
       = (Some (fst (handle_headers lib i h (tick env (Fetch i) s))),
          snd (handle_headers lib i h (tick env (Fetch i) s)))"
  by (simp add: process_email_def do_fetch_def split_beta)

lemma do_fetch_not_ok:
  "\<not> (mail s \<and> (\<exists>h. fetch_reply env (clock s) = FetchOK h)) \<Longrightarrow>
     \<forall>h. fst (do_fetch env i s) \<noteq> FetchOK h"
  by (auto simp: do_fetch_def)

lemma process_email_retry:
  assumes "\<not> (mail s \<and> (\<exists>h. fetch_reply env (clock s) = FetchOK h))"
  shows "process_email lib env i s = retry_after_failure lib env i (snd (do_fetch env i s))"
proof -
  obtain rep s1 where f: "do_fetch env i s = (rep, s1)" by (cases "do_fetch env i s")
  have n: "\<forall>h. rep \<noteq> FetchOK h" using do_fetch_not_ok[OF assms, of i] f by simp
  obtain ok s2 where r: "reconnect_if_needed env s1 = (ok, s2)"
    by (cases "reconnect_if_needed env s1")
  obtain rep2 s3 where f2: "do_fetch env i s2 = (rep2, s3)" by (cases "do_fetch env i s2")
  have a1: "fetch_attempts lib env i [1] s1 = retry_after_failure lib env i s1"
    using r f2 by (cases ok; cases rep2) (simp_all add: retry_after_failure_def split_beta)
  show ?thesis
    using f n a1 by (cases rep) (simp_all add: process_email_def)
qed


lemma handle_headers_shape:
  "\<exists>cl. trace (snd (handle_headers lib i h s)) = trace s @ cl \<and> list_all is_classify cl"
  by (simp add: handle_headers_def Let_def split_beta is_classify_def split: option.splits)

lemma reconnect_shape:
  "\<exists>cn. trace (snd (reconnect_if_needed env s)) = trace s @ cn \<and> list_all conn_event cn
        \<and> (mail s \<longrightarrow> (\<exists>cn'. cn = Noop # cn'))"
proof (cases "mail s")
  case False
  have "grows conn_event s (snd (reconnect_if_needed env s))" by (rule grows_reconnect)
  then show ?thesis using False by (auto simp: grows_def)
next
  case True
  let ?s1 = "tick env Noop s"
  have m: "mail_call env Noop s = (raises env (clock s), ?s1)"
    using True by (simp add: mail_call_def call_def)
  show ?thesis
  proof (cases "raises env (clock s)")
    case False
    with m have "trace (snd (reconnect_if_needed env s)) = trace s @ [Noop]"
      by (simp add: reconnect_if_needed_def)
    then show ?thesis by simp
  next
    case r: True
    have "grows conn_event ?s1 (snd (connect_attempts env [0, 1, 2] ?s1))"
      by (rule grows_connect_attempts)
    then obtain cn where c: "trace (snd (connect_attempts env [0, 1, 2] ?s1)) = trace ?s1 @ cn"
      "list_all conn_event cn" by (auto simp: grows_def)
    have "trace (snd (reconnect_if_needed env s)) = trace s @ Noop # cn"
      using m r c(1) by (simp add: reconnect_if_needed_def connect_to_gmail_def)
    then show ?thesis using c(2) by simp
  qed
qed

lemma do_fetch_shape:
  "\<exists>f. trace (snd (do_fetch env i s)) = trace s @ f \<and> (f = [] \<or> f = [Fetch i])
       \<and> (mail s \<longrightarrow> f = [Fetch i])"
  by (simp add: do_fetch_def)

lemma retry_shape:
  "\<exists>cn f cl. trace (snd (retry_after_failure lib env i s)) = trace s @ cn @ f @ cl
      \<and> list_all conn_event cn \<and> (f = [] \<or> f = [Fetch i]) \<and> list_all is_classify cl
      \<and> (mail s \<longrightarrow> (\<exists>cn'. cn = Noop # cn'))"
proof -
  obtain ok s2 where r: "reconnect_if_needed env s = (ok, s2)"
    by (cases "reconnect_if_needed env s")
  obtain cn where cn: "trace s2 = trace s @ cn" "list_all conn_event cn"
    "mail s \<longrightarrow> (\<exists>cn'. cn = Noop # cn')"
    using reconnect_shape[of env s] r by auto
  show ?thesis
  proof (cases ok)
    case False
    then have "trace (snd (retry_after_failure lib env i s)) = trace s @ cn @ [] @ []"
      using r cn(1) by (simp add: retry_after_failure_def)
    then show ?thesis using cn(2,3) by (intro exI[of _ cn] exI[of _ "[]"]) simp
  next
    case True
    obtain rep s3 where f: "do_fetch env i s2 = (rep, s3)" by (cases "do_fetch env i s2")
    obtain fe where fe: "trace s3 = trace s2 @ fe" "fe = [] \<or> fe = [Fetch i]"
      using do_fetch_shape[of env i s2] f by auto
    show ?thesis
    proof (cases "\<exists>h. rep = FetchOK h")
      case False
      then have "snd (retry_after_failure lib env i s) = s3"
        using r True f by (cases rep) (simp_all add: retry_after_failure_def)
      then have "trace (snd (retry_after_failure lib env i s)) = trace s @ cn @ fe @ []"
        using fe(1) cn(1) by simp
      then show ?thesis using cn(2,3) fe(2) by (intro exI[of _ cn] exI[of _ fe] exI[of _ "[]"]) simp
    next
      case ok: True
      then obtain h where h: "rep = FetchOK h" by blast
      obtain cl where cl: "trace (snd (handle_headers lib i h s3)) = trace s3 @ cl"
        "list_all is_classify cl" using handle_headers_shape by blast
      have "snd (retry_after_failure lib env i s) = snd (handle_headers lib i h s3)"
        using r True f h by (simp add: retry_after_failure_def split_beta)
      then have "trace (snd (retry_after_failure lib env i s)) = trace s @ cn @ fe @ cl"
        using cl(1) fe(1) cn(1) by simp
      then show ?thesis using cn(2,3) fe(2) cl(2) by blast
    qed
  qed
qed

lemma conn_not_fetch: "list_all conn_event cn \<Longrightarrow> filter is_fetch cn = []"
  by (induction cn) (auto simp: conn_event_def is_fetch_def split: event.splits)

lemma classify_not_fetch: "list_all is_classify cl \<Longrightarrow> filter is_fetch cl = []"
  by (induction cl) (auto simp: is_classify_def is_fetch_def split: event.splits)

lemma checked_before_True: "checked_before True evs"
  by (induction evs) auto

lemma checked_before_classify: "list_all is_classify cl \<Longrightarrow> checked_before b cl"
  by (induction cl) (auto simp: is_classify_def split: event.splits)

lemma classify_no_noop: "list_all is_classify cl \<Longrightarrow> Noop \<notin> set cl"
  by (induction cl) (auto simp: is_classify_def)

lemma process_email_shape:
  "\<exists>new. trace (snd (process_email lib env i s)) = trace s @ new
     \<and> length (filter is_fetch new) \<le> 2
     \<and> (mail s \<longrightarrow> (\<exists>rest. new = Fetch i # rest \<and> checked_before False rest
            \<and> ((\<exists>h. fetch_reply env (clock s) = FetchOK h) \<longrightarrow> Noop \<notin> set new)
            \<and> (\<not> (\<exists>h. fetch_reply env (clock s) = FetchOK h) \<longrightarrow> (\<exists>rest'. rest = Noop # rest'))))"
proof (cases "mail s \<and> (\<exists>h. fetch_reply env (clock s) = FetchOK h)")
  case True
  then obtain h where h: "fetch_reply env (clock s) = FetchOK h" and m: "mail s" by blast
  let ?s1 = "tick env (Fetch i) s"
  obtain cl where cl: "trace (snd (handle_headers lib i h ?s1)) = trace ?s1 @ cl"
    "list_all is_classify cl" using handle_headers_shape by blast
  have t: "trace (snd (process_email lib env i s)) = trace s @ Fetch i # cl"
    using process_email_first_ok[OF m h] cl(1) by simp
  have c: "length (filter is_fetch (Fetch i # cl)) \<le> 2"
    using classify_not_fetch[OF cl(2)] by (simp add: is_fetch_def)
  have "checked_before False cl" using cl(2) by (rule checked_before_classify)
  moreover have "Noop \<notin> set (Fetch i # cl)" using classify_no_noop[OF cl(2)] by simp
  ultimately show ?thesis using t c h by blast
next
  case False
  let ?s1 = "snd (do_fetch env i s)"
  obtain fe where fe: "trace ?s1 = trace s @ fe" "fe = [] \<or> fe = [Fetch i]"
    "mail s \<longrightarrow> fe = [Fetch i]"
    using do_fetch_shape[of env i s] by auto
  have m1: "mail ?s1 = mail s" by (simp add: do_fetch_def)
  obtain cn f cl where sh: "trace (snd (retry_after_failure lib env i ?s1)) = trace ?s1 @ cn @ f @ cl"
    "list_all conn_event cn" "f = [] \<or> f = [Fetch i]" "list_all is_classify cl"
    "mail ?s1 \<longrightarrow> (\<exists>cn'. cn = Noop # cn')"
    using retry_shape[of lib env i ?s1] by blast
  have t: "trace (snd (process_email lib env i s)) = trace s @ fe @ cn @ f @ cl"
    using process_email_retry[OF False] sh(1) fe(1) by simp
  have "filter is_fetch (fe @ cn @ f @ cl) = filter is_fetch fe @ filter is_fetch f"
    using conn_not_fetch[OF sh(2)] classify_not_fetch[OF sh(4)] by simp
  moreover have "length (filter is_fetch fe) \<le> 1" using fe(2) by (auto simp: is_fetch_def)
  moreover have "length (filter is_fetch f) \<le> 1" using sh(3) by (auto simp: is_fetch_def)
  ultimately have c: "length (filter is_fetch (fe @ cn @ f @ cl)) \<le> 2" by simp
  have r: "mail s \<longrightarrow> (\<exists>rest. fe @ cn @ f @ cl = Fetch i # rest \<and> checked_before False rest
            \<and> ((\<exists>h. fetch_reply env (clock s) = FetchOK h) \<longrightarrow> Noop \<notin> set (fe @ cn @ f @ cl))
            \<and> (\<not> (\<exists>h. fetch_reply env (clock s) = FetchOK h) \<longrightarrow> (\<exists>rest'. rest = Noop # rest')))"
  proof
    assume m: "mail s"
    with False have nok: "\<not> (\<exists>h. fetch_reply env (clock s) = FetchOK h)" by blast
    from m fe(3) have f1: "fe = [Fetch i]" by simp
    from m m1 sh(5) obtain cn' where cn': "cn = Noop # cn'" by blast
    have "fe @ cn @ f @ cl = Fetch i # Noop # (cn' @ f @ cl)" using f1 cn' by simp
    moreover have "checked_before False (Noop # (cn' @ f @ cl))"
      by (simp add: checked_before_True)
    ultimately show "\<exists>rest. fe @ cn @ f @ cl = Fetch i # rest \<and> checked_before False rest
            \<and> ((\<exists>h. fetch_reply env (clock s) = FetchOK h) \<longrightarrow> Noop \<notin> set (fe @ cn @ f @ cl))
            \<and> (\<not> (\<exists>h. fetch_reply env (clock s) = FetchOK h) \<longrightarrow> (\<exists>rest'. rest = Noop # rest'))"
      using nok by blast
  qed
  from t c r show ?thesis by blast
qed


lemma scan_ok_classify: "scan_ok lib env ev \<Longrightarrow> is_classify ev \<Longrightarrow> classified_old lib env ev"
  by (cases ev) (auto simp: scan_ok_def conn_event_def is_fetch_def is_classify_def)

lemma grows_ball:
  "grows P s s' \<Longrightarrow> (\<And>ev. P ev \<Longrightarrow> Q ev) \<Longrightarrow> \<exists>new. trace s' = trace s @ new \<and> (\<forall>ev\<in>set new. Q ev)"
  by (auto simp: grows_def list_all_iff)

section \<open>Counting the outcomes\<close>

lemma length_scan_flat: "length (fst (scan_flat lib env ids s)) \<le> length ids"
proof (induction ids arbitrary: s)
  case Nil
  then show ?case by simp
next
  case (Cons i ids)
  obtain r s1 where p: "process_email lib env i s = (r, s1)" by (cases "process_email lib env i s")
  have "length (option_list r) \<le> 1" by (cases r) simp_all
  with Cons.IH[of s1] p show ?case by (simp add: split_beta)
qed

lemma scan_flat_skipped:
  "\<not> stop_requested (snd (scan_flat lib env ids s)) \<Longrightarrow>
     length (fst (scan_flat lib env ids s)) + skipped lib env ids s = length ids"
proof (induction ids arbitrary: s)
  case Nil
  then show ?case by simp
next
  case (Cons i ids)
  obtain r s1 where p: "process_email lib env i s = (r, s1)" by (cases "process_email lib env i s")
  from Cons.prems have ns: "\<not> stop_requested s" by (auto split: if_splits)
  with Cons.prems p have "\<not> stop_requested (snd (scan_flat lib env ids s1))"
    by (simp add: split_beta)
  from Cons.IH[OF this] ns p show ?case by (cases r) (simp_all add: split_beta)
qed

lemma stop_consume_results [simp]: "stop_requested (consume_results rs s) = stop_requested s"
  by (simp add: consume_results_counts)

lemma scan_batches_stopped: "stop_requested s \<Longrightarrow> scan_batches lib env bs s = s"
  by (cases bs) simp_all

lemma scan_batches_append:
  "scan_batches lib env (xs @ ys) s = scan_batches lib env ys (scan_batches lib env xs s)"
proof (induction xs arbitrary: s)
  case Nil
  then show ?case by simp
next
  case (Cons b xs)
  show ?case
  proof (cases "stop_requested s")
    case True
    then show ?thesis by (simp add: scan_batches_stopped)
  next
    case False
    then show ?thesis by (simp add: split_beta Cons.IH)
  qed
qed

lemma scan_batches_counts:
  "emails_to_delete (scan_batches lib env bs s)
     = emails_to_delete s @ filter is_delete (fst (scan_flat lib env (concat bs) s))"
  "deleted_count (scan_batches lib env bs s)
     = deleted_count s + length (filter is_delete (fst (scan_flat lib env (concat bs) s)))"
  "kept_count (scan_batches lib env bs s)
     = kept_count s + length (filter (\<lambda>r. \<not> is_delete r) (fst (scan_flat lib env (concat bs) s)))"
  "processed_count (scan_batches lib env bs s)
     = processed_count s + length (fst (scan_flat lib env (concat bs) s))"
  by (simp_all add: scan_batches_flat
      consume_results_counts[of _ "snd (scan_flat lib env (concat bs) s)"] scan_flat_keeps_counts)

lemma reset_sel [simp]:
  "emails_to_delete (reset s) = []" "deleted_count (reset s) = 0" "kept_count (reset s) = 0"
  "processed_count (reset s) = 0" "\<not> stop_requested (reset s)" "trace (reset s) = trace s"
  "mail (reset s) = mail s" "clock (reset s) = clock s"
  by (simp_all add: reset_def)

lemma concat_take_le: "length (concat (take k bs)) \<le> length (concat bs)"
proof -
  have "concat bs = concat (take k bs) @ concat (drop k bs)"
    by (metis append_take_drop_id concat_append)
  then show ?thesis by (metis length_append le_add1)
qed

lemma process_email_batch_stopped:
  "stop_requested s \<Longrightarrow> process_email_batch lib env batch s = ([], s)"
  by (simp add: process_email_batch_flat scan_flat_stopped)

section \<open>The deletion executor\<close>

text \<open>
  Claim C6. \<open>delete_emails_fast\<close> walks the candidates in slices of 50 (the slices
  put together are the candidate list, each slice has between 1 and 50 entries and all
  but the last have 50), issues one flag-store call per candidate in that order and
  counts each as successful or failed, so that the two counts add up to the number of
  candidates whatever fails; after the last store it issues one expunge call, and no
  other call. A failure of the expunge call is recorded in the report and changes
  neither count: the counts of two runs that differ only in the outcome of the expunge
  call are the same, and when every store succeeds the report shows all candidates
  successful and none failed. The function always returns its report.
\<close>

theorem deletion_counts_and_single_expunge:
  "successful (fst (delete_emails_fast env s)) + failed (fst (delete_emails_fast env s))
      = length (emails_to_delete s)
   \<and> concat (fetch_email_headers_batch (emails_to_delete s) 50) = emails_to_delete s
   \<and> (\<forall>b \<in> set (fetch_email_headers_batch (emails_to_delete s) 50). b \<noteq> [] \<and> length b \<le> 50)
   \<and> (\<forall>j. Suc j < length (fetch_email_headers_batch (emails_to_delete s) 50)
          \<longrightarrow> length (fetch_email_headers_batch (emails_to_delete s) 50 ! j) = 50)
   \<and> (mail s \<longrightarrow>
         trace (snd (delete_emails_fast env s))
           = trace s @ map (\<lambda>e. Store (result_id e)) (emails_to_delete s) @ [Expunge]
         \<and> successful (fst (delete_emails_fast env s))
             = stores_ok env (clock s) (length (emails_to_delete s))
         \<and> expunge_failed (fst (delete_emails_fast env s))
             = raises env (clock s + length (emails_to_delete s)))
   \<and> (mail s \<and> (\<forall>k<length (emails_to_delete s). \<not> raises env (clock s + k)) \<longrightarrow>
         successful (fst (delete_emails_fast env s)) = length (emails_to_delete s)
         \<and> failed (fst (delete_emails_fast env s)) = 0)
   \<and> ((\<forall>n. n \<noteq> clock s + length (emails_to_delete s) \<longrightarrow> raises env' n = raises env n) \<longrightarrow>
         successful (fst (delete_emails_fast env' s)) = successful (fst (delete_emails_fast env s))
         \<and> failed (fst (delete_emails_fast env' s)) = failed (fst (delete_emails_fast env s)))"
proof -
  let ?N = "length (emails_to_delete s)"
  let ?r = "fst (delete_emails_fast env s)"
  have sum: "\<And>e. successful (fst (delete_emails_fast e s)) + failed (fst (delete_emails_fast e s)) = ?N"
  proof -
    fix e show "successful (fst (delete_emails_fast e s)) + failed (fst (delete_emails_fast e s)) = ?N"
    proof (cases "mail s")
      case True
      then show ?thesis by (rule delete_emails_fast_mail(2))
    next
      case False
      then show ?thesis by (simp add: delete_emails_fast_nomail)
    qed
  qed
  have c1: "successful ?r + failed ?r = ?N" by (rule sum)
  have c2: "concat (fetch_email_headers_batch (emails_to_delete s) 50) = emails_to_delete s"
    by (simp add: concat_batches)
  have c3: "\<forall>b \<in> set (fetch_email_headers_batch (emails_to_delete s) 50). b \<noteq> [] \<and> length b \<le> 50"
    using batches_sizes by blast
  have c4: "\<forall>j. Suc j < length (fetch_email_headers_batch (emails_to_delete s) 50)
          \<longrightarrow> length (fetch_email_headers_batch (emails_to_delete s) 50 ! j) = 50"
    using batches_full by blast
  have c5: "mail s \<longrightarrow>
         trace (snd (delete_emails_fast env s))
           = trace s @ map (\<lambda>e. Store (result_id e)) (emails_to_delete s) @ [Expunge]
         \<and> successful ?r = stores_ok env (clock s) ?N
         \<and> expunge_failed ?r = raises env (clock s + ?N)"
    by (simp add: delete_emails_fast_mail)
  have c6: "mail s \<and> (\<forall>k<?N. \<not> raises env (clock s + k)) \<longrightarrow>
         successful ?r = ?N \<and> failed ?r = 0"
  proof
    assume a: "mail s \<and> (\<forall>k<?N. \<not> raises env (clock s + k))"
    then have "successful ?r = ?N"
      by (simp add: delete_emails_fast_mail stores_ok_all)
    with c1 show "successful ?r = ?N \<and> failed ?r = 0" by simp
  qed
  have c7: "(\<forall>n. n \<noteq> clock s + ?N \<longrightarrow> raises env' n = raises env n) \<longrightarrow>
         successful (fst (delete_emails_fast env' s)) = successful ?r
         \<and> failed (fst (delete_emails_fast env' s)) = failed ?r"
  proof
    assume a: "\<forall>n. n \<noteq> clock s + ?N \<longrightarrow> raises env' n = raises env n"
    have su: "successful (fst (delete_emails_fast env' s)) = successful ?r"
    proof (cases "mail s")
      case True
      have "stores_ok env' (clock s) ?N = stores_ok env (clock s) ?N"
        using a by (intro stores_ok_cong) simp
      with True show ?thesis by (simp add: delete_emails_fast_mail)
    next
      case False
      then show ?thesis by (simp add: delete_emails_fast_nomail)
    qed
    from su sum[of env'] c1
    show "successful (fst (delete_emails_fast env' s)) = successful ?r
         \<and> failed (fst (delete_emails_fast env' s)) = failed ?r" by simp
  qed
  from c1 c2 c3 c4 c5 c6 c7 show ?thesis by (intro conjI)
qed

theorem deletion_counts_and_single_expunge_witness:
  "mail two_candidates
   \<and> length (emails_to_delete two_candidates) = 2
   \<and> \<not> raises env_expunge_fails (clock two_candidates + 0)
   \<and> \<not> raises env_expunge_fails (clock two_candidates + 1)
   \<and> raises env_expunge_fails (clock two_candidates + 2)
   \<and> successful (fst (delete_emails_fast env_expunge_fails two_candidates)) = 2
   \<and> failed (fst (delete_emails_fast env_expunge_fails two_candidates)) = 0
   \<and> expunge_failed (fst (delete_emails_fast env_expunge_fails two_candidates))
   \<and> trace (snd (delete_emails_fast env_expunge_fails two_candidates))
        = [Store ''1'', Store ''2'', Expunge]
   \<and> successful (fst (delete_emails_fast env_quiet two_candidates)) = 2
   \<and> failed (fst (delete_emails_fast env_quiet two_candidates)) = 0"
proof -
  have m: "mail two_candidates" by (simp add: two_candidates_def init_state_def)
  have n: "length (emails_to_delete two_candidates) = 2" by (simp add: two_candidates_def)
  have c: "clock two_candidates = 0" by (simp add: two_candidates_def init_state_def)
  have t: "trace two_candidates = []" by (simp add: two_candidates_def init_state_def)
  have r: "\<not> raises env_expunge_fails (clock two_candidates + 0)"
      "\<not> raises env_expunge_fails (clock two_candidates + 1)"
      "raises env_expunge_fails (clock two_candidates + 2)"
    by (simp_all add: c env_expunge_fails_def)
  have all: "\<forall>k<length (emails_to_delete two_candidates).
      \<not> raises env_expunge_fails (clock two_candidates + k)"
    by (simp add: n c env_expunge_fails_def)
  have same: "\<forall>n. n \<noteq> clock two_candidates + length (emails_to_delete two_candidates)
      \<longrightarrow> raises env_quiet n = raises env_expunge_fails n"
    by (simp add: n c env_expunge_fails_def env_quiet_def)
  note th = deletion_counts_and_single_expunge[of env_expunge_fails two_candidates env_quiet]
  have a: "successful (fst (delete_emails_fast env_expunge_fails two_candidates)) = 2
      \<and> failed (fst (delete_emails_fast env_expunge_fails two_candidates)) = 0"
    using th m all n by simp
  have b: "expunge_failed (fst (delete_emails_fast env_expunge_fails two_candidates))"
    using th m r n by simp
  have "trace (snd (delete_emails_fast env_expunge_fails two_candidates))
      = trace two_candidates
          @ map (\<lambda>e. Store (result_id e)) (emails_to_delete two_candidates) @ [Expunge]"
    using th m by blast
  moreover have "emails_to_delete two_candidates =
       [Delete ''1'' 0 (ascii ''promo@shop.com'') (ascii ''Sale'') ''Contains pattern: sale'',
        Delete ''2'' 0 (ascii ''news@shop.com'') (ascii ''Digest'') ''Contains pattern: digest'']"
    by (simp add: two_candidates_def)
  ultimately have d: "trace (snd (delete_emails_fast env_expunge_fails two_candidates))
      = [Store ''1'', Store ''2'', Expunge]"
    by (simp add: t)
  have e: "successful (fst (delete_emails_fast env_quiet two_candidates)) = 2
      \<and> failed (fst (delete_emails_fast env_quiet two_candidates)) = 0"
    using th same a by simp
  from m n r a b d e show ?thesis by simp
qed


text \<open>
  Claim C1. The events of a run of \<open>analyze_emails_fast\<close> are those of the scan,
  none of which is a flag-store, an expunge or a prompt, followed by those of
  \<open>show_analysis_results\<close>. In dry-run mode the latter are none, so no flag-store and
  no expunge is ever issued. Otherwise a flag-store or an expunge is issued only when
  the first event after the scan is the prompt and the user's answer, lower-cased, is
  \<open>yes\<close>; every deletion call comes after that answer. The second half states the
  same of \<open>show_analysis_results\<close> started in any state, that is after any scan
  outcome, and adds that a deletion needs at least one candidate.
\<close>

theorem deletion_only_after_confirmation:
  "(\<exists>scan post.
       trace (snd (analyze_emails_fast lib env email_ids dry_run s)) = trace s @ scan @ post
     \<and> list_all scan_event scan
     \<and> (dry_run \<longrightarrow> post = [])
     \<and> (list_ex is_deletion post \<longrightarrow>
          \<not> dry_run
          \<and> (\<exists>confirm rest. post = Input (Some confirm) # rest
                \<and> lower lib confirm = ascii ''yes'')))
   \<and> (\<exists>post.
       trace (snd (show_analysis_results lib env total_emails dry_run s)) = trace s @ post
     \<and> (dry_run \<longrightarrow> post = [])
     \<and> (list_ex is_deletion post \<longrightarrow>
          \<not> dry_run \<and> 0 < deleted_count s
          \<and> (\<exists>confirm rest. post = Input (Some confirm) # rest
                \<and> lower lib confirm = ascii ''yes'')))"
proof
  show "\<exists>scan post.
       trace (snd (analyze_emails_fast lib env email_ids dry_run s)) = trace s @ scan @ post
     \<and> list_all scan_event scan
     \<and> (dry_run \<longrightarrow> post = [])
     \<and> (list_ex is_deletion post \<longrightarrow>
          \<not> dry_run
          \<and> (\<exists>confirm rest. post = Input (Some confirm) # rest
                \<and> lower lib confirm = ascii ''yes''))"
  proof (cases "email_ids = []")
    case True
    then have "trace (snd (analyze_emails_fast lib env email_ids dry_run s)) = trace s @ [] @ []"
      by (simp add: analyze_emails_fast_def)
    moreover have "list_all scan_event []" by simp
    moreover have "\<not> list_ex is_deletion []" by simp
    ultimately show ?thesis by blast
  next
    case False
    define s1 where "s1 = s\<lparr>deleted_count := 0, kept_count := 0, emails_to_delete := [],
                   processed_count := 0, stop_requested := False\<rparr>"
    define s2 where "s2 = scan_batches lib env (fetch_email_headers_batch email_ids 100) s1"
    have a: "analyze_emails_fast lib env email_ids dry_run s
        = show_analysis_results lib env (length email_ids) dry_run s2"
      using False by (simp add: analyze_emails_fast_def s1_def s2_def Let_def)
    have "grows scan_event s1 s2" unfolding s2_def by (rule grows_scan_batches)
    then obtain scan where sc: "trace s2 = trace s1 @ scan" "list_all scan_event scan"
      by (auto simp: grows_def)
    have t1: "trace s1 = trace s" by (simp add: s1_def)
    obtain post where p: "trace (snd (show_analysis_results lib env (length email_ids) dry_run s2))
        = trace s2 @ post" "dry_run \<longrightarrow> post = []"
      "list_ex is_deletion post \<longrightarrow>
          \<not> dry_run \<and> 0 < deleted_count s2
          \<and> (\<exists>confirm rest. post = Input (Some confirm) # rest
                \<and> lower lib confirm = ascii ''yes'')"
      using show_analysis_results_trace by blast
    have "trace (snd (analyze_emails_fast lib env email_ids dry_run s)) = trace s @ scan @ post"
      using a p(1) sc(1) t1 by simp
    then show ?thesis using sc(2) p(2) p(3) by blast
  qed
next
  show "\<exists>post.
       trace (snd (show_analysis_results lib env total_emails dry_run s)) = trace s @ post
     \<and> (dry_run \<longrightarrow> post = [])
     \<and> (list_ex is_deletion post \<longrightarrow>
          \<not> dry_run \<and> 0 < deleted_count s
          \<and> (\<exists>confirm rest. post = Input (Some confirm) # rest
                \<and> lower lib confirm = ascii ''yes''))"
    by (rule show_analysis_results_trace)
qed

lemma scan_events_no_deletion: "list_all scan_event evs \<Longrightarrow> \<not> list_ex is_deletion evs"
  by (induction evs) (auto simp: scan_event_def)

theorem deletion_only_after_confirmation_witness:
  "(\<exists>scan post.
       trace (snd (analyze_emails_fast lib_utc env_promo_yes [''1''] False init_state))
         = trace init_state @ scan @ post
     \<and> list_all scan_event scan \<and> list_ex is_deletion post
     \<and> (\<exists>confirm rest. post = Input (Some confirm) # rest
           \<and> lower lib_utc confirm = ascii ''yes''))
   \<and> trace (snd (analyze_emails_fast lib_utc env_promo_yes [''1''] False init_state))
       = [Fetch ''1'', Classify (ascii ''promo@shop.com'') (ascii ''50% off today!'')
            (ascii ''Shop <promo@shop.com>''),
          Input (Some (ascii ''YES'')), Store ''1'', Expunge]
   \<and> \<not> list_ex is_deletion
         (trace (snd (analyze_emails_fast lib_utc env_promo_yes [''1''] True init_state)))
   \<and> trace (snd (analyze_emails_fast lib_utc env_promo_yes [''1''] True init_state))
       = [Fetch ''1'', Classify (ascii ''promo@shop.com'') (ascii ''50% off today!'')
            (ascii ''Shop <promo@shop.com>'')]"
proof -
  let ?run = "\<lambda>dry. trace (snd (analyze_emails_fast lib_utc env_promo_yes [''1''] dry init_state))"
  have ev1: "?run False
       = [Fetch ''1'', Classify (ascii ''promo@shop.com'') (ascii ''50% off today!'')
            (ascii ''Shop <promo@shop.com>''),
          Input (Some (ascii ''YES'')), Store ''1'', Expunge]"
    by code_simp
  have ev2: "?run True
       = [Fetch ''1'', Classify (ascii ''promo@shop.com'') (ascii ''50% off today!'')
            (ascii ''Shop <promo@shop.com>'')]"
    by code_simp
  have t0: "trace init_state = []" by (simp add: init_state_def)
  from deletion_only_after_confirmation[of lib_utc env_promo_yes "[''1'']" False init_state 0]
  obtain scan post where f:
    "?run False = trace init_state @ scan @ post" "list_all scan_event scan"
    "list_ex is_deletion post \<longrightarrow>
       \<not> False \<and> (\<exists>confirm rest. post = Input (Some confirm) # rest
                     \<and> lower lib_utc confirm = ascii ''yes'')"
    by blast
  have "list_ex is_deletion (?run False)"
    by (simp add: ev1)
  then have "list_ex is_deletion (scan @ post)"
    unfolding f(1) t0 by simp
  then have d: "list_ex is_deletion post"
    using scan_events_no_deletion[OF f(2)] by simp
  with f have w1: "\<exists>scan post. ?run False = trace init_state @ scan @ post
     \<and> list_all scan_event scan \<and> list_ex is_deletion post
     \<and> (\<exists>confirm rest. post = Input (Some confirm) # rest
           \<and> lower lib_utc confirm = ascii ''yes'')"
    by blast
  from deletion_only_after_confirmation[of lib_utc env_promo_yes "[''1'']" True init_state 0]
  obtain scan' post' where g:
    "?run True = trace init_state @ scan' @ post'" "list_all scan_event scan'" "post' = []"
    by blast
  then have w2: "\<not> list_ex is_deletion (?run True)"
    using scan_events_no_deletion[of scan'] t0 by simp
  from w1 ev1 w2 ev2 show ?thesis by blast
qed

section \<open>The date filter\<close>

text \<open>
  Claim C2. When the date of a fetched message cannot be parsed (no Date header or an
  unparsable one) or is not before the cutoff, the step after the fetch records the
  message as kept with reason \<open>too_recent_or_no_date\<close> and leaves the state as it is:
  no invocation of the classifier is recorded. The whole step for such a message whose
  first fetch succeeds is that one fetch and this outcome. Conversely every invocation
  of the classifier that a message step or a scan of batches records is for a fetched
  message whose date was parsed and lies strictly before the cutoff.
\<close>

theorem recent_or_undated_is_kept_unclassified:
  "((parse_email_date lib (hdr_date h) = None
       \<or> (\<exists>d. parse_email_date lib (hdr_date h) = Some d \<and> cutoff_date \<le> d))
      \<longrightarrow> handle_headers lib i h s = (Keep i ''too_recent_or_no_date'', s))
   \<and> (mail s \<and> fetch_reply env (clock s) = FetchOK h
        \<and> (parse_email_date lib (hdr_date h) = None
             \<or> (\<exists>d. parse_email_date lib (hdr_date h) = Some d \<and> cutoff_date \<le> d))
      \<longrightarrow> process_email lib env i s
            = (Some (Keep i ''too_recent_or_no_date''), tick env (Fetch i) s))
   \<and> (\<exists>new. trace (snd (process_email lib env i s)) = trace s @ new
          \<and> (\<forall>ev\<in>set new. is_classify ev \<longrightarrow> classified_old lib env ev))
   \<and> (\<exists>new. trace (scan_batches lib env batches s) = trace s @ new
          \<and> (\<forall>ev\<in>set new. is_classify ev \<longrightarrow> classified_old lib env ev))"
proof -
  let ?recent = "parse_email_date lib (hdr_date h) = None
       \<or> (\<exists>d. parse_email_date lib (hdr_date h) = Some d \<and> cutoff_date \<le> d)"
  have keep: "\<And>t. ?recent \<Longrightarrow> handle_headers lib i h t = (Keep i ''too_recent_or_no_date'', t)"
    by (auto simp: handle_headers_def Let_def)
  have c1: "?recent \<longrightarrow> handle_headers lib i h s = (Keep i ''too_recent_or_no_date'', s)"
    using keep by blast
  have c2: "mail s \<and> fetch_reply env (clock s) = FetchOK h \<and> ?recent
      \<longrightarrow> process_email lib env i s
            = (Some (Keep i ''too_recent_or_no_date''), tick env (Fetch i) s)"
  proof
    assume a: "mail s \<and> fetch_reply env (clock s) = FetchOK h \<and> ?recent"
    then have "process_email lib env i s
       = (Some (fst (handle_headers lib i h (tick env (Fetch i) s))),
          snd (handle_headers lib i h (tick env (Fetch i) s)))"
      by (simp add: process_email_first_ok)
    moreover have "handle_headers lib i h (tick env (Fetch i) s)
        = (Keep i ''too_recent_or_no_date'', tick env (Fetch i) s)"
      using a keep by blast
    ultimately show "process_email lib env i s
            = (Some (Keep i ''too_recent_or_no_date''), tick env (Fetch i) s)"
      by simp
  qed
  have c3: "\<exists>new. trace (snd (process_email lib env i s)) = trace s @ new
          \<and> (\<forall>ev\<in>set new. is_classify ev \<longrightarrow> classified_old lib env ev)"
    by (rule grows_ball[OF grows_process_email]) (simp add: scan_ok_classify)
  have "grows (scan_ok lib env) s (scan_batches lib env batches s)"
    using grows_scan_flat_ok[of lib env s "concat batches"]
    by (simp add: scan_batches_flat grows_def)
  then have c4: "\<exists>new. trace (scan_batches lib env batches s) = trace s @ new
          \<and> (\<forall>ev\<in>set new. is_classify ev \<longrightarrow> classified_old lib env ev)"
    by (rule grows_ball) (simp add: scan_ok_classify)
  from c1 c2 c3 c4 show ?thesis by (intro conjI)
qed

theorem recent_or_undated_is_kept_unclassified_witness:
  "parse_email_date lib_utc (hdr_date recent_promo) = Some 1751328000
   \<and> cutoff_date \<le> 1751328000
   \<and> parse_email_date lib_utc (hdr_date undated) = None
   \<and> mail init_state \<and> fetch_reply env_recent (clock init_state) = FetchOK recent_promo
   \<and> handle_headers lib_utc ''2'' undated init_state
       = (Keep ''2'' ''too_recent_or_no_date'', init_state)
   \<and> process_email lib_utc env_recent ''1'' init_state
       = (Some (Keep ''1'' ''too_recent_or_no_date''), tick env_recent (Fetch ''1'') init_state)
   \<and> trace (snd (process_email lib_utc env_promo_yes ''1'' init_state))
       = trace init_state
           @ [Fetch ''1'', Classify (ascii ''promo@shop.com'') (ascii ''50% off today!'')
            (ascii ''Shop <promo@shop.com>'')]
   \<and> classified_old lib_utc env_promo_yes
        (Classify (ascii ''promo@shop.com'') (ascii ''50% off today!'')
            (ascii ''Shop <promo@shop.com>''))"
proof -
  have p1: "parse_email_date lib_utc (hdr_date recent_promo) = Some 1751328000"
    by code_simp
  have p2: "cutoff_date \<le> 1751328000" by code_simp
  have p3: "parse_email_date lib_utc (hdr_date undated) = None" by code_simp
  have m: "mail init_state" by (simp add: init_state_def)
  have f: "fetch_reply env_recent (clock init_state) = FetchOK recent_promo"
    by (simp add: env_recent_def init_state_def)
  have r1: "parse_email_date lib_utc (hdr_date recent_promo) = None
       \<or> (\<exists>d. parse_email_date lib_utc (hdr_date recent_promo) = Some d \<and> cutoff_date \<le> d)"
    using p1 p2 by simp
  note t1 = recent_or_undated_is_kept_unclassified[of lib_utc recent_promo "''1''" init_state env_recent "[]"]
  note t2 = recent_or_undated_is_kept_unclassified[of lib_utc undated "''2''" init_state env_promo_yes "[]"]
  have a: "process_email lib_utc env_recent ''1'' init_state
       = (Some (Keep ''1'' ''too_recent_or_no_date''), tick env_recent (Fetch ''1'') init_state)"
    using t1 m f r1 by blast
  have b: "handle_headers lib_utc ''2'' undated init_state
       = (Keep ''2'' ''too_recent_or_no_date'', init_state)"
    using t2 p3 by blast
  have tr: "trace (snd (process_email lib_utc env_promo_yes ''1'' init_state))
       = trace init_state
           @ [Fetch ''1'', Classify (ascii ''promo@shop.com'') (ascii ''50% off today!'')
            (ascii ''Shop <promo@shop.com>'')]"
    by code_simp
  from recent_or_undated_is_kept_unclassified[of lib_utc undated "''1''" init_state env_promo_yes "[]"]
  obtain new where n: "trace (snd (process_email lib_utc env_promo_yes ''1'' init_state))
        = trace init_state @ new"
      "\<forall>ev\<in>set new. is_classify ev \<longrightarrow> classified_old lib_utc env_promo_yes ev"
    by blast
  from n(1) tr have "new = [Fetch ''1'',
      Classify (ascii ''promo@shop.com'') (ascii ''50% off today!'')
            (ascii ''Shop <promo@shop.com>'')]"
    by simp
  with n(2) have c: "classified_old lib_utc env_promo_yes
        (Classify (ascii ''promo@shop.com'') (ascii ''50% off today!'')
            (ascii ''Shop <promo@shop.com>''))"
    by (simp add: is_classify_def)
  from p1 p2 p3 m f b a tr c show ?thesis by blast
qed

section \<open>The retry of one message\<close>

lemma process_email_keeps_counts:
  "emails_to_delete (snd (process_email lib env i s)) = emails_to_delete s"
  "deleted_count (snd (process_email lib env i s)) = deleted_count s"
  "kept_count (snd (process_email lib env i s)) = kept_count s"
  "processed_count (snd (process_email lib env i s)) = processed_count s"
proof -
  let ?c = "with_counts (emails_to_delete s) (deleted_count s) (kept_count s) (processed_count s)"
  have "snd (process_email lib env i (?c s)) = ?c (snd (process_email lib env i s))"
    by (simp only: process_email_counts snd_conv)
  then have e: "snd (process_email lib env i s) = ?c (snd (process_email lib env i s))"
    by simp
  show "emails_to_delete (snd (process_email lib env i s)) = emails_to_delete s"
    by (subst e) (simp only: with_counts_sel)
  show "deleted_count (snd (process_email lib env i s)) = deleted_count s"
    by (subst e) (simp only: with_counts_sel)
  show "kept_count (snd (process_email lib env i s)) = kept_count s"
    by (subst e) (simp only: with_counts_sel)
  show "processed_count (snd (process_email lib env i s)) = processed_count s"
    by (subst e) (simp only: with_counts_sel)
qed

lemma process_email_batch_Cons:
  "\<not> stop_requested s \<Longrightarrow>
   process_email_batch lib env (i # rest) s =
     (option_list (fst (process_email lib env i s))
        @ fst (process_email_batch lib env rest (snd (process_email lib env i s))),
      snd (process_email_batch lib env rest (snd (process_email lib env i s))))"
  by (simp add: process_email_batch_flat split_beta)

text \<open>
  Claim C7. When the first header fetch of a message fails (a status other than
  \<open>OK\<close>, an exception, or no connection object), the step of that message is one
  local retry: a liveness check and, when the check succeeds, one more fetch; a message
  step never fetches more than twice. When the retry fails as well, the step yields no
  outcome: the batch result holds no entry for the message, and the scan counts it as
  neither kept nor deleted nor processed. Whatever the step of a message yields, the
  batch goes on with the remaining messages: the batch result is the outcome of the
  message, if any, followed by the result of the rest of the batch.
\<close>

theorem failed_fetch_is_retried_once_then_skipped:
  "(\<not> (mail s \<and> (\<exists>h. fetch_reply env (clock s) = FetchOK h)) \<longrightarrow>
      process_email lib env i s = retry_after_failure lib env i (snd (do_fetch env i s)))
   \<and> (\<exists>new. trace (snd (process_email lib env i s)) = trace s @ new
          \<and> length (filter is_fetch new) \<le> 2)
   \<and> (\<not> stop_requested s \<longrightarrow>
        process_email_batch lib env (i # rest) s =
          (option_list (fst (process_email lib env i s))
             @ fst (process_email_batch lib env rest (snd (process_email lib env i s))),
           snd (process_email_batch lib env rest (snd (process_email lib env i s)))))
   \<and> (\<not> stop_requested s \<and> fst (process_email lib env i s) = None \<longrightarrow>
        process_email_batch lib env (i # rest) s
          = process_email_batch lib env rest (snd (process_email lib env i s))
        \<and> scan_batches lib env [[i]] s = snd (process_email lib env i s)
        \<and> emails_to_delete (scan_batches lib env [[i]] s) = emails_to_delete s
        \<and> deleted_count (scan_batches lib env [[i]] s) = deleted_count s
        \<and> kept_count (scan_batches lib env [[i]] s) = kept_count s
        \<and> processed_count (scan_batches lib env [[i]] s) = processed_count s)"
proof -
  have c1: "\<not> (mail s \<and> (\<exists>h. fetch_reply env (clock s) = FetchOK h)) \<longrightarrow>
      process_email lib env i s = retry_after_failure lib env i (snd (do_fetch env i s))"
    using process_email_retry by blast
  have c2: "\<exists>new. trace (snd (process_email lib env i s)) = trace s @ new
          \<and> length (filter is_fetch new) \<le> 2"
    using process_email_shape[of lib env i s] by blast
  have c3: "\<not> stop_requested s \<longrightarrow>
        process_email_batch lib env (i # rest) s =
          (option_list (fst (process_email lib env i s))
             @ fst (process_email_batch lib env rest (snd (process_email lib env i s))),
           snd (process_email_batch lib env rest (snd (process_email lib env i s))))"
    using process_email_batch_Cons by blast
  have c4: "\<not> stop_requested s \<and> fst (process_email lib env i s) = None \<longrightarrow>
        process_email_batch lib env (i # rest) s
          = process_email_batch lib env rest (snd (process_email lib env i s))
        \<and> scan_batches lib env [[i]] s = snd (process_email lib env i s)
        \<and> emails_to_delete (scan_batches lib env [[i]] s) = emails_to_delete s
        \<and> deleted_count (scan_batches lib env [[i]] s) = deleted_count s
        \<and> kept_count (scan_batches lib env [[i]] s) = kept_count s
        \<and> processed_count (scan_batches lib env [[i]] s) = processed_count s"
  proof
    assume a: "\<not> stop_requested s \<and> fst (process_email lib env i s) = None"
    then have b: "process_email_batch lib env (i # rest) s
          = process_email_batch lib env rest (snd (process_email lib env i s))"
      by (simp add: process_email_batch_Cons)
    have "process_email_batch lib env [i] s = ([], snd (process_email lib env i s))"
      using a by (simp add: process_email_batch_flat split_beta)
    then have sb: "scan_batches lib env [[i]] s = snd (process_email lib env i s)"
      using a by simp
    show "process_email_batch lib env (i # rest) s
          = process_email_batch lib env rest (snd (process_email lib env i s))
        \<and> scan_batches lib env [[i]] s = snd (process_email lib env i s)
        \<and> emails_to_delete (scan_batches lib env [[i]] s) = emails_to_delete s
        \<and> deleted_count (scan_batches lib env [[i]] s) = deleted_count s
        \<and> kept_count (scan_batches lib env [[i]] s) = kept_count s
        \<and> processed_count (scan_batches lib env [[i]] s) = processed_count s"
      using b sb by (simp add: process_email_keeps_counts)
  qed
  from c1 c2 c3 c4 show ?thesis by (intro conjI)
qed

theorem failed_fetch_is_retried_once_then_skipped_witness:
  "\<not> stop_requested init_state
   \<and> \<not> (mail init_state \<and> (\<exists>h. fetch_reply env_retry (clock init_state) = FetchOK h))
   \<and> process_email lib_utc env_retry ''1'' init_state
       = retry_after_failure lib_utc env_retry ''1'' (snd (do_fetch env_retry ''1'' init_state))
   \<and> fst (process_email lib_utc env_retry ''1'' init_state) = None
   \<and> trace (snd (process_email lib_utc env_retry ''1'' init_state))
       = [Fetch ''1'', Noop, Fetch ''1'']
   \<and> processed_count (scan_batches lib_utc env_retry [[''1'']] init_state) = 0
   \<and> process_email_batch lib_utc env_retry [''1'', ''2''] init_state
       = process_email_batch lib_utc env_retry [''2'']
           (snd (process_email lib_utc env_retry ''1'' init_state))
   \<and> fst (process_email_batch lib_utc env_retry [''1'', ''2''] init_state)
       = [Delete ''2'' 1735689600 (ascii ''Shop <promo@shop.com>'') (ascii ''50% off today!'')
            ''Contains pattern: promo'']
   \<and> trace (snd (process_email_batch lib_utc env_retry [''1'', ''2''] init_state))
       = [Fetch ''1'', Noop, Fetch ''1'', Fetch ''2'',
          Classify (ascii ''promo@shop.com'') (ascii ''50% off today!'')
            (ascii ''Shop <promo@shop.com>'')]"
proof -
  have s0: "\<not> stop_requested init_state" by (simp add: init_state_def)
  have f0: "fetch_reply env_retry (clock init_state) = FetchNotOK"
    by (simp add: env_retry_def init_state_def)
  then have n0: "\<not> (mail init_state \<and> (\<exists>h. fetch_reply env_retry (clock init_state) = FetchOK h))"
    by simp
  have none: "fst (process_email lib_utc env_retry ''1'' init_state) = None"
    by code_simp
  have tr1: "trace (snd (process_email lib_utc env_retry ''1'' init_state))
       = [Fetch ''1'', Noop, Fetch ''1'']"
    by code_simp
  have res: "fst (process_email_batch lib_utc env_retry [''1'', ''2''] init_state)
       = [Delete ''2'' 1735689600 (ascii ''Shop <promo@shop.com>'') (ascii ''50% off today!'')
            ''Contains pattern: promo'']"
    by code_simp
  have tr2: "trace (snd (process_email_batch lib_utc env_retry [''1'', ''2''] init_state))
       = [Fetch ''1'', Noop, Fetch ''1'', Fetch ''2'',
          Classify (ascii ''promo@shop.com'') (ascii ''50% off today!'')
            (ascii ''Shop <promo@shop.com>'')]"
    by code_simp
  have p0: "processed_count init_state = 0" by (simp add: init_state_def)
  note th = failed_fetch_is_retried_once_then_skipped[of init_state env_retry lib_utc "''1''" "[''2'']"]
  have a: "process_email lib_utc env_retry ''1'' init_state
       = retry_after_failure lib_utc env_retry ''1'' (snd (do_fetch env_retry ''1'' init_state))"
    using th n0 by blast
  have b: "process_email_batch lib_utc env_retry [''1'', ''2''] init_state
       = process_email_batch lib_utc env_retry [''2'']
           (snd (process_email lib_utc env_retry ''1'' init_state))"
    using th s0 none by blast
  have "processed_count (scan_batches lib_utc env_retry [[''1'']] init_state)
      = processed_count init_state"
    using th s0 none by blast
  then have c: "processed_count (scan_batches lib_utc env_retry [[''1'']] init_state) = 0"
    using p0 by simp
  from s0 n0 a none tr1 c b res tr2 show ?thesis by blast
qed

section \<open>Liveness checks\<close>

lemma delete_events:
  "\<exists>new. trace (snd (delete_emails_fast env s)) = trace s @ new
      \<and> list_all is_deletion new \<and> Noop \<notin> set new"
proof (cases "mail s")
  case True
  let ?new = "map (\<lambda>e. Store (result_id e)) (emails_to_delete s) @ [Expunge]"
  have "trace (snd (delete_emails_fast env s)) = trace s @ ?new"
    using True by (simp add: delete_emails_fast_mail)
  moreover have "list_all is_deletion ?new" by (simp add: list_all_iff)
  moreover have "Noop \<notin> set ?new" by auto
  ultimately show ?thesis by blast
next
  case False
  then have "trace (snd (delete_emails_fast env s)) = trace s @ []"
    by (simp add: delete_emails_fast_nomail)
  then show ?thesis by (intro exI[of _ "[]"]) simp
qed

text \<open>
  Claim C9, as stated, fails. A message whose first fetch succeeds is fetched without
  any liveness probe in the run, and the deletion executor issues its flag-store calls
  and its expunge call without one.
\<close>

theorem operations_without_liveness_check:
  "Noop \<notin> set (trace (snd (process_email lib_utc env_promo_yes ''1'' init_state)))
   \<and> \<not> checked_before False (trace (snd (process_email lib_utc env_promo_yes ''1'' init_state)))
   \<and> Noop \<notin> set (trace (snd (delete_emails_fast env_quiet two_candidates)))
   \<and> \<not> checked_before False (trace (snd (delete_emails_fast env_quiet two_candidates)))"
proof -
  have a: "trace (snd (process_email lib_utc env_promo_yes ''1'' init_state))
      = [Fetch ''1'', Classify (ascii ''promo@shop.com'') (ascii ''50% off today!'')
            (ascii ''Shop <promo@shop.com>'')]"
    by code_simp
  have b: "trace (snd (delete_emails_fast env_quiet two_candidates))
      = [Store ''1'', Store ''2'', Expunge]"
    by code_simp
  show ?thesis by (simp add: a b)
qed

text \<open>
  Claim C9, amended. In the batch scanner the first header fetch of every message is
  issued without a liveness check; a liveness check (\<open>reconnect_if_needed\<close>, which
  begins with the probe) is made only when that first fetch failed, right after it, and
  a second fetch of the message comes only after that check. The deletion executor
  issues flag-store calls and the expunge call only, with no liveness check.
\<close>

theorem liveness_check_only_before_retry:
  "(mail s \<longrightarrow>
      (\<exists>rest. trace (snd (process_email lib env i s)) = trace s @ Fetch i # rest
         \<and> checked_before False rest
         \<and> ((\<exists>h. fetch_reply env (clock s) = FetchOK h) \<longrightarrow> Noop \<notin> set rest)
         \<and> (\<not> (\<exists>h. fetch_reply env (clock s) = FetchOK h) \<longrightarrow> (\<exists>rest'. rest = Noop # rest'))))
   \<and> (\<exists>new. trace (snd (delete_emails_fast env s)) = trace s @ new
         \<and> list_all is_deletion new \<and> Noop \<notin> set new)"
proof
  show "mail s \<longrightarrow>
      (\<exists>rest. trace (snd (process_email lib env i s)) = trace s @ Fetch i # rest
         \<and> checked_before False rest
         \<and> ((\<exists>h. fetch_reply env (clock s) = FetchOK h) \<longrightarrow> Noop \<notin> set rest)
         \<and> (\<not> (\<exists>h. fetch_reply env (clock s) = FetchOK h) \<longrightarrow> (\<exists>rest'. rest = Noop # rest')))"
  proof
    assume m: "mail s"
    from process_email_shape[of lib env i s] m
    obtain new rest where n: "trace (snd (process_email lib env i s)) = trace s @ new"
      "new = Fetch i # rest" "checked_before False rest"
      "(\<exists>h. fetch_reply env (clock s) = FetchOK h) \<longrightarrow> Noop \<notin> set new"
      "\<not> (\<exists>h. fetch_reply env (clock s) = FetchOK h) \<longrightarrow> (\<exists>rest'. rest = Noop # rest')"
      by blast
    from n(2,4) have "(\<exists>h. fetch_reply env (clock s) = FetchOK h) \<longrightarrow> Noop \<notin> set rest"
      by simp
    with n(1,2,3,5)
    show "\<exists>rest. trace (snd (process_email lib env i s)) = trace s @ Fetch i # rest
         \<and> checked_before False rest
         \<and> ((\<exists>h. fetch_reply env (clock s) = FetchOK h) \<longrightarrow> Noop \<notin> set rest)
         \<and> (\<not> (\<exists>h. fetch_reply env (clock s) = FetchOK h) \<longrightarrow> (\<exists>rest'. rest = Noop # rest'))"
      by blast
  qed
next
  show "\<exists>new. trace (snd (delete_emails_fast env s)) = trace s @ new
         \<and> list_all is_deletion new \<and> Noop \<notin> set new"
    by (rule delete_events)
qed

theorem liveness_check_only_before_retry_witness:
  "mail init_state
   \<and> \<not> (\<exists>h. fetch_reply env_retry (clock init_state) = FetchOK h)
   \<and> (\<exists>rest'. trace (snd (process_email lib_utc env_retry ''1'' init_state))
                 = trace init_state @ Fetch ''1'' # Noop # rest')
   \<and> trace (snd (process_email lib_utc env_retry ''1'' init_state))
       = [Fetch ''1'', Noop, Fetch ''1'']
   \<and> (\<exists>h. fetch_reply env_promo_yes (clock init_state) = FetchOK h)
   \<and> (\<exists>rest. trace (snd (process_email lib_utc env_promo_yes ''1'' init_state))
                = trace init_state @ Fetch ''1'' # rest \<and> Noop \<notin> set rest)
   \<and> trace (snd (process_email lib_utc env_promo_yes ''1'' init_state))
       = [Fetch ''1'', Classify (ascii ''promo@shop.com'') (ascii ''50% off today!'')
            (ascii ''Shop <promo@shop.com>'')]"
proof -
  have m: "mail init_state" by (simp add: init_state_def)
  have f0: "fetch_reply env_retry (clock init_state) = FetchNotOK"
    by (simp add: env_retry_def init_state_def)
  then have n0: "\<not> (\<exists>h. fetch_reply env_retry (clock init_state) = FetchOK h)" by simp
  have f1: "fetch_reply env_promo_yes (clock init_state) = FetchOK old_promo"
    by (simp add: env_promo_yes_def init_state_def)
  then have o1: "\<exists>h. fetch_reply env_promo_yes (clock init_state) = FetchOK h" by blast
  have tr1: "trace (snd (process_email lib_utc env_retry ''1'' init_state))
       = [Fetch ''1'', Noop, Fetch ''1'']"
    by code_simp
  have tr2: "trace (snd (process_email lib_utc env_promo_yes ''1'' init_state))
       = [Fetch ''1'', Classify (ascii ''promo@shop.com'') (ascii ''50% off today!'')
            (ascii ''Shop <promo@shop.com>'')]"
    by code_simp
  from liveness_check_only_before_retry[of init_state lib_utc env_retry "''1''"] m n0
  have a: "\<exists>rest'. trace (snd (process_email lib_utc env_retry ''1'' init_state))
                 = trace init_state @ Fetch ''1'' # Noop # rest'"
    by blast
  from liveness_check_only_before_retry[of init_state lib_utc env_promo_yes "''1''"] m o1
  have b: "\<exists>rest. trace (snd (process_email lib_utc env_promo_yes ''1'' init_state))
                = trace init_state @ Fetch ''1'' # rest \<and> Noop \<notin> set rest"
    by blast
  from m n0 a tr1 o1 b tr2 show ?thesis by blast
qed

section \<open>The accounting of the scan\<close>

text \<open>
  Claim C4, as stated, fails in its second half: a scan that runs to its end without
  cancellation, over one unread message whose header fetch fails on both attempts, ends
  with a processed count of 0, not the total of 1.
\<close>

theorem full_scan_with_skipped_message:
  "\<not> stop_requested (scan_batches lib_utc env_quiet (fetch_email_headers_batch [''1''] 100)
        (reset init_state))
   \<and> deleted_count (scan_batches lib_utc env_quiet (fetch_email_headers_batch [''1''] 100)
        (reset init_state))
       + kept_count (scan_batches lib_utc env_quiet (fetch_email_headers_batch [''1''] 100)
        (reset init_state)) = 0
   \<and> processed_count (scan_batches lib_utc env_quiet (fetch_email_headers_batch [''1''] 100)
        (reset init_state)) = 0
   \<and> processed_count (scan_batches lib_utc env_quiet (fetch_email_headers_batch [''1''] 100)
        (reset init_state)) \<noteq> length [''1'']"
  by code_simp


text \<open>
  Claim C4, amended. After every fully consumed batch (the state after the first \<open>k\<close>
  batches, for every \<open>k\<close>) the length of the list of delete outcomes is the deleted
  count, deleted count plus kept count is the processed count, and the processed count
  is at most the number of ids in the batches consumed so far, which is at most the total
  number of unread ids. After a full, uncancelled scan the processed count plus the
  number of skipped messages (those whose fetch failed on both attempts) is the total
  unread count; so processed equals the total when no message was skipped. The last two
  parts tie these states to the source: the scan of all batches continues the scan of
  the first \<open>k\<close>, and \<open>analyze_emails_fast\<close> reports on the state after all
  batches.
\<close>

theorem scan_accounting:
  "length (emails_to_delete (scan_batches lib env (take k (fetch_email_headers_batch email_ids 100)) (reset s)))
     = deleted_count (scan_batches lib env (take k (fetch_email_headers_batch email_ids 100)) (reset s))
   \<and> deleted_count (scan_batches lib env (take k (fetch_email_headers_batch email_ids 100)) (reset s))
       + kept_count (scan_batches lib env (take k (fetch_email_headers_batch email_ids 100)) (reset s))
     = processed_count (scan_batches lib env (take k (fetch_email_headers_batch email_ids 100)) (reset s))
   \<and> processed_count (scan_batches lib env (take k (fetch_email_headers_batch email_ids 100)) (reset s))
       \<le> length (concat (take k (fetch_email_headers_batch email_ids 100)))
   \<and> length (concat (take k (fetch_email_headers_batch email_ids 100))) \<le> length email_ids
   \<and> scan_batches lib env (fetch_email_headers_batch email_ids 100) (reset s)
       = scan_batches lib env (drop k (fetch_email_headers_batch email_ids 100))
           (scan_batches lib env (take k (fetch_email_headers_batch email_ids 100)) (reset s))
   \<and> (\<not> stop_requested (scan_batches lib env (fetch_email_headers_batch email_ids 100) (reset s)) \<longrightarrow>
         processed_count (scan_batches lib env (fetch_email_headers_batch email_ids 100) (reset s))
           + skipped lib env email_ids (reset s) = length email_ids)
   \<and> (email_ids \<noteq> [] \<longrightarrow>
         analyze_emails_fast lib env email_ids dry_run s
           = show_analysis_results lib env (length email_ids) dry_run
               (scan_batches lib env (fetch_email_headers_batch email_ids 100) (reset s)))"
proof -
  let ?bs = "fetch_email_headers_batch email_ids 100"
  let ?sk = "scan_batches lib env (take k ?bs) (reset s)"
  let ?rs = "fst (scan_flat lib env (concat (take k ?bs)) (reset s))"
  have cc: "concat ?bs = email_ids" by (simp add: concat_batches)
  have c1: "length (emails_to_delete ?sk) = deleted_count ?sk"
    by (simp add: scan_batches_counts)
  have c2: "deleted_count ?sk + kept_count ?sk = processed_count ?sk"
    by (simp add: scan_batches_counts sum_length_filter_compl)
  have c3: "processed_count ?sk \<le> length (concat (take k ?bs))"
    by (simp add: scan_batches_counts length_scan_flat)
  have c4: "length (concat (take k ?bs)) \<le> length email_ids"
    using concat_take_le[of k ?bs] cc by simp
  have c5: "scan_batches lib env ?bs (reset s) = scan_batches lib env (drop k ?bs) ?sk"
    using scan_batches_append[of lib env "take k ?bs" "drop k ?bs" "reset s"] by simp
  have c6: "\<not> stop_requested (scan_batches lib env ?bs (reset s)) \<longrightarrow>
         processed_count (scan_batches lib env ?bs (reset s))
           + skipped lib env email_ids (reset s) = length email_ids"
  proof
    assume "\<not> stop_requested (scan_batches lib env ?bs (reset s))"
    then have "\<not> stop_requested (snd (scan_flat lib env email_ids (reset s)))"
      by (simp add: scan_batches_flat cc)
    from scan_flat_skipped[OF this]
    show "processed_count (scan_batches lib env ?bs (reset s))
           + skipped lib env email_ids (reset s) = length email_ids"
      by (simp add: scan_batches_counts cc)
  qed
  have c7: "email_ids \<noteq> [] \<longrightarrow>
         analyze_emails_fast lib env email_ids dry_run s
           = show_analysis_results lib env (length email_ids) dry_run
               (scan_batches lib env ?bs (reset s))"
    by (simp add: analyze_emails_fast_def reset_def Let_def)
  from c1 c2 c3 c4 c5 c6 c7 show ?thesis by (intro conjI)
qed


theorem scan_accounting_witness:
  "\<not> stop_requested (scan_batches lib_utc env_quiet (fetch_email_headers_batch [''1''] 100)
        (reset init_state))
   \<and> skipped lib_utc env_quiet [''1''] (reset init_state) = 1
   \<and> processed_count (scan_batches lib_utc env_quiet (fetch_email_headers_batch [''1''] 100)
        (reset init_state)) + 1 = length [''1'']
   \<and> \<not> stop_requested (scan_batches lib_utc env_promo_yes
        (fetch_email_headers_batch [''1'', ''2''] 100) (reset init_state))
   \<and> skipped lib_utc env_promo_yes [''1'', ''2''] (reset init_state) = 0
   \<and> processed_count (scan_batches lib_utc env_promo_yes
        (fetch_email_headers_batch [''1'', ''2''] 100) (reset init_state)) = 2
   \<and> deleted_count (scan_batches lib_utc env_promo_yes
        (fetch_email_headers_batch [''1'', ''2''] 100) (reset init_state)) = 2
   \<and> analyze_emails_fast lib_utc env_promo_yes [''1'', ''2''] True init_state
       = show_analysis_results lib_utc env_promo_yes (length [''1'', ''2'']) True
           (scan_batches lib_utc env_promo_yes (fetch_email_headers_batch [''1'', ''2''] 100)
              (reset init_state))"
proof -
  let ?X = "scan_batches lib_utc env_quiet (fetch_email_headers_batch [''1''] 100) (reset init_state)"
  let ?Y = "scan_batches lib_utc env_promo_yes (fetch_email_headers_batch [''1'', ''2''] 100)
        (reset init_state)"
  have x: "\<not> stop_requested ?X" by code_simp
  have y: "\<not> stop_requested ?Y" by code_simp
  have sx: "skipped lib_utc env_quiet [''1''] (reset init_state) = 1" by code_simp
  have sy: "skipped lib_utc env_promo_yes [''1'', ''2''] (reset init_state) = 0" by code_simp
  have dy: "deleted_count ?Y = 2" by code_simp
  note tx = scan_accounting[of lib_utc env_quiet 1 "[''1'']" init_state True]
  note ty = scan_accounting[of lib_utc env_promo_yes 1 "[''1'', ''2'']" init_state True]
  have h: "processed_count ?X + skipped lib_utc env_quiet [''1''] (reset init_state)
      = length [''1'']"
    using tx x by blast
  have a: "processed_count ?X + 1 = length [''1'']"
    by (rule h[unfolded sx])
  have "processed_count ?Y + skipped lib_utc env_promo_yes [''1'', ''2''] (reset init_state)
      = length [''1'', ''2'']"
    using ty y by blast
  then have b: "processed_count ?Y = 2" unfolding sy by simp
  have c: "analyze_emails_fast lib_utc env_promo_yes [''1'', ''2''] True init_state
       = show_analysis_results lib_utc env_promo_yes (length [''1'', ''2'']) True ?Y"
    using ty by blast
  from x sx a y sy b dy c show ?thesis by blast
qed

section \<open>Cancellation\<close>

text \<open>
  Claim C5, as stated, fails where it says that the processed count is strictly less
  than the total: when the flag is set while the last message is being fetched, that
  message is still recorded and the processed count equals the total.
\<close>

theorem cancelled_during_last_message:
  "\<not> stop_requested (reset init_state)
   \<and> stop_requested (scan_batches lib_utc env_cancel_last (fetch_email_headers_batch [''1''] 100)
        (reset init_state))
   \<and> processed_count (scan_batches lib_utc env_cancel_last (fetch_email_headers_batch [''1''] 100)
        (reset init_state)) = length [''1'']
   \<and> \<not> processed_count (scan_batches lib_utc env_cancel_last (fetch_email_headers_batch [''1''] 100)
        (reset init_state)) < length [''1'']"
  by code_simp


text \<open>
  Claim C5, amended. With the flag set, a batch and a scan do nothing: no message is
  processed and the state, with the results recorded so far, is returned as it is. The
  scan of the batches is the scan of their messages in order, the flag being read before
  each message. So when the flag is clear after the messages \<open>pre\<close> and set after
  the step of the next message \<open>m\<close>, the scan ends in the state left by that step:
  the recorded outcomes are those of \<open>pre\<close>, unchanged, followed by the outcome of
  \<open>m\<close> if it has one; no event follows the step of \<open>m\<close>, so no message after
  \<open>m\<close> is fetched or recorded; the processed count is at most the number of messages
  up to and including \<open>m\<close>, hence strictly less than the total when a message follows
  \<open>m\<close>. In every case the processed count is at most the total.
\<close>

theorem cancellation_stops_after_current_message:
  "(stop_requested s \<longrightarrow>
      scan_batches lib env batches s = s \<and> process_email_batch lib env batch s = ([], s))
   \<and> scan_batches lib env batches s
       = consume_results (fst (scan_flat lib env (concat batches) s))
           (snd (scan_flat lib env (concat batches) s))
   \<and> processed_count (scan_batches lib env (fetch_email_headers_batch email_ids 100) (reset s))
       \<le> length email_ids
   \<and> (email_ids = pre @ m # post
        \<and> \<not> stop_requested (snd (scan_flat lib env pre (reset s)))
        \<and> stop_requested (snd (process_email lib env m (snd (scan_flat lib env pre (reset s)))))
      \<longrightarrow>
        scan_batches lib env (fetch_email_headers_batch email_ids 100) (reset s)
          = consume_results
              (fst (scan_flat lib env pre (reset s))
                 @ option_list (fst (process_email lib env m (snd (scan_flat lib env pre (reset s))))))
              (snd (process_email lib env m (snd (scan_flat lib env pre (reset s)))))
        \<and> trace (scan_batches lib env (fetch_email_headers_batch email_ids 100) (reset s))
            = trace (snd (process_email lib env m (snd (scan_flat lib env pre (reset s)))))
        \<and> emails_to_delete (scan_batches lib env (fetch_email_headers_batch email_ids 100) (reset s))
            = filter is_delete
                (fst (scan_flat lib env pre (reset s))
                   @ option_list (fst (process_email lib env m (snd (scan_flat lib env pre (reset s))))))
        \<and> processed_count (scan_batches lib env (fetch_email_headers_batch email_ids 100) (reset s))
            \<le> length pre + 1
        \<and> (post \<noteq> [] \<longrightarrow>
              processed_count (scan_batches lib env (fetch_email_headers_batch email_ids 100) (reset s))
                < length email_ids))"
proof -
  let ?bs = "fetch_email_headers_batch email_ids 100"
  let ?F = "scan_batches lib env ?bs (reset s)"
  let ?A = "scan_flat lib env pre (reset s)"
  let ?P = "process_email lib env m (snd ?A)"
  have cc: "concat ?bs = email_ids" by (simp add: concat_batches)
  have c1: "stop_requested s \<longrightarrow>
      scan_batches lib env batches s = s \<and> process_email_batch lib env batch s = ([], s)"
    by (simp add: scan_batches_stopped process_email_batch_stopped)
  have c2: "scan_batches lib env batches s
       = consume_results (fst (scan_flat lib env (concat batches) s))
           (snd (scan_flat lib env (concat batches) s))"
    by (rule scan_batches_flat)
  have c3: "processed_count ?F \<le> length email_ids"
    using length_scan_flat[of lib env email_ids "reset s"]
    by (simp add: scan_batches_counts cc)
  have c4: "email_ids = pre @ m # post
        \<and> \<not> stop_requested (snd ?A) \<and> stop_requested (snd ?P)
      \<longrightarrow> ?F = consume_results (fst ?A @ option_list (fst ?P)) (snd ?P)
        \<and> trace ?F = trace (snd ?P)
        \<and> emails_to_delete ?F = filter is_delete (fst ?A @ option_list (fst ?P))
        \<and> processed_count ?F \<le> length pre + 1
        \<and> (post \<noteq> [] \<longrightarrow> processed_count ?F < length email_ids)"
  proof
    assume a: "email_ids = pre @ m # post
        \<and> \<not> stop_requested (snd ?A) \<and> stop_requested (snd ?P)"
    then have e: "email_ids = pre @ m # post" and nA: "\<not> stop_requested (snd ?A)"
      and sP: "stop_requested (snd ?P)" by simp_all
    have tail: "scan_flat lib env (m # post) (snd ?A) = (option_list (fst ?P), snd ?P)"
      using nA sP by (simp add: split_beta scan_flat_stopped)
    have fl: "scan_flat lib env email_ids (reset s) = (fst ?A @ option_list (fst ?P), snd ?P)"
      unfolding e by (simp only: scan_flat_append tail fst_conv snd_conv)
    have f1: "?F = consume_results (fst ?A @ option_list (fst ?P)) (snd ?P)"
      by (simp add: scan_batches_flat cc fl)
    have f2: "trace ?F = trace (snd ?P)" by (simp add: f1)
    have f3: "emails_to_delete ?F = filter is_delete (fst ?A @ option_list (fst ?P))"
      by (simp add: scan_batches_counts cc fl)
    have pc: "processed_count ?F = length (fst ?A) + length (option_list (fst ?P))"
      by (simp add: scan_batches_counts cc fl)
    have "length (option_list (fst ?P)) \<le> 1" by (cases "fst ?P") simp_all
    moreover have "length (fst ?A) \<le> length pre" by (rule length_scan_flat)
    ultimately have f4: "processed_count ?F \<le> length pre + 1" using pc by simp
    have f5: "post \<noteq> [] \<longrightarrow> processed_count ?F < length email_ids"
      using f4 e by (cases post) simp_all
    from f1 f2 f3 f4 f5
    show "?F = consume_results (fst ?A @ option_list (fst ?P)) (snd ?P)
        \<and> trace ?F = trace (snd ?P)
        \<and> emails_to_delete ?F = filter is_delete (fst ?A @ option_list (fst ?P))
        \<and> processed_count ?F \<le> length pre + 1
        \<and> (post \<noteq> [] \<longrightarrow> processed_count ?F < length email_ids)"
      by (intro conjI)
  qed
  from c1 c2 c3 c4 show ?thesis by (intro conjI)
qed

theorem cancellation_stops_after_current_message_witness:
  "[''1'', ''2'', ''3''] = [''1''] @ ''2'' # [''3'']
   \<and> \<not> stop_requested (snd (scan_flat lib_utc env_cancel_mid [''1''] (reset init_state)))
   \<and> stop_requested (snd (process_email lib_utc env_cancel_mid ''2''
         (snd (scan_flat lib_utc env_cancel_mid [''1''] (reset init_state)))))
   \<and> trace (scan_batches lib_utc env_cancel_mid
         (fetch_email_headers_batch [''1'', ''2'', ''3''] 100) (reset init_state))
       = trace (snd (process_email lib_utc env_cancel_mid ''2''
           (snd (scan_flat lib_utc env_cancel_mid [''1''] (reset init_state)))))
   \<and> trace (scan_batches lib_utc env_cancel_mid
         (fetch_email_headers_batch [''1'', ''2'', ''3''] 100) (reset init_state))
       = [Fetch ''1'', Classify (ascii ''promo@shop.com'') (ascii ''50% off today!'')
            (ascii ''Shop <promo@shop.com>''),
          Fetch ''2'', Classify (ascii ''promo@shop.com'') (ascii ''50% off today!'')
            (ascii ''Shop <promo@shop.com>'')]
   \<and> processed_count (scan_batches lib_utc env_cancel_mid
         (fetch_email_headers_batch [''1'', ''2'', ''3''] 100) (reset init_state)) = 2
   \<and> processed_count (scan_batches lib_utc env_cancel_mid
         (fetch_email_headers_batch [''1'', ''2'', ''3''] 100) (reset init_state))
       < length [''1'', ''2'', ''3'']"
proof -
  let ?F = "scan_batches lib_utc env_cancel_mid
         (fetch_email_headers_batch [''1'', ''2'', ''3''] 100) (reset init_state)"
  let ?A = "scan_flat lib_utc env_cancel_mid [''1''] (reset init_state)"
  let ?P = "process_email lib_utc env_cancel_mid ''2'' (snd ?A)"
  have e: "[''1'', ''2'', ''3''] = [''1''] @ ''2'' # [''3'']" by simp
  have nA: "\<not> stop_requested (snd ?A)" by code_simp
  have sP: "stop_requested (snd ?P)" by code_simp
  have tr: "trace ?F
       = [Fetch ''1'', Classify (ascii ''promo@shop.com'') (ascii ''50% off today!'')
            (ascii ''Shop <promo@shop.com>''),
          Fetch ''2'', Classify (ascii ''promo@shop.com'') (ascii ''50% off today!'')
            (ascii ''Shop <promo@shop.com>'')]"
    by code_simp
  have pc: "processed_count ?F = 2" by code_simp
  have ne: "[''3''] \<noteq> []" by simp
  note th = cancellation_stops_after_current_message[of init_state lib_utc env_cancel_mid
      "[]" "[]" "[''1'', ''2'', ''3'']" "[''1'']" "''2''" "[''3'']"]
  have a: "trace ?F = trace (snd ?P)" using th e nA sP by blast
  have b: "processed_count ?F < length [''1'', ''2'', ''3'']" using th e nA sP ne by blast
  from e nA sP a tr pc b show ?thesis by blast
qed

section \<open>The date parser\<close>

lemma parse_email_date_py:
  "parse_email_date (py_lib parse mktime utcoffset tolower sigma) date_str = Some r \<Longrightarrow>
     \<exists>parsed t. date_str \<noteq> [] \<and> parse date_str = Some parsed
        \<and> py_mktime_tz mktime parsed = Some t \<and> r = t + utcoffset t"
  by (auto simp: parse_email_date_def py_lib_def py_fromtimestamp_def Let_def
      split: if_splits option.splits)

text \<open>
  Claim C8, as stated, fails where it says that the result is the absolute instant and
  not a local wall-clock reading. For the header \<open>Sat, 31 May 2025 23:30:00 +0000\<close>
  the absolute instant is 1748734200 seconds after the epoch, before midnight UTC of
  1 June 2025; on a host one hour east of UTC the parser returns the reading
  \<open>2025-06-01 00:30:00\<close> of that host's clock, which is not before the cutoff, while
  on a host in UTC it returns \<open>2025-05-31 23:30:00\<close>, which is.
\<close>

theorem date_parser_result_depends_on_host_zone:
  "mktime_tz lib_plus1 (2025, 5, 31, 23, 30, 0, Some 0) = Some 1748734200
   \<and> parse_email_date lib_plus1 ''Sat, 31 May 2025 23:30:00 +0000'' = Some 1748737800
   \<and> parse_email_date lib_plus1 ''Sat, 31 May 2025 23:30:00 +0000'' \<noteq> Some 1748734200
   \<and> parse_email_date lib_utc ''Sat, 31 May 2025 23:30:00 +0000'' = Some 1748734200
   \<and> cutoff_date = 1748736000
   \<and> 1748734200 < cutoff_date
   \<and> \<not> 1748737800 < cutoff_date"
  by code_simp

text \<open>
  Claim C8, amended. The date parser maps the empty string and every string that the
  library does not parse to Unknown, and it never raises (it is a total function into
  an option). On a string with a zone offset whose fields the library parses, it takes
  the absolute instant that the string denotes (the fields read as UTC, minus the
  offset) and returns the naive reading of the clock of the host at that instant: the
  instant plus the host's offset from UTC. Every result of the parser is such a local
  reading of the timestamp computed by \<open>mktime_tz\<close>, so two strings for the same
  instant give the same result, and the comparison with the cutoff compares local
  readings: the cutoff is 2025-06-01 00:00:00 on the host's clock.
\<close>

theorem date_parser_gives_local_reading:
  "parse_email_date lib [] = None
   \<and> (parsedate_tz lib date_str = None \<longrightarrow> parse_email_date lib date_str = None)
   \<and> (date_str \<noteq> [] \<and> parse date_str = Some (y, mo, d, h, mi, sec, Some z)
        \<and> timegm (y, mo, d, h, mi, sec, Some z) = Some g
        \<and> naive_datetime 1 1 1 \<le> (g - z) + utcoffset (g - z)
        \<and> (g - z) + utcoffset (g - z) < naive_datetime 9999 12 31 + 86400
      \<longrightarrow> mktime_tz (py_lib parse mktime utcoffset tolower sigma) (y, mo, d, h, mi, sec, Some z)
            = Some (g - z)
          \<and> parse_email_date (py_lib parse mktime utcoffset tolower sigma) date_str
               = Some ((g - z) + utcoffset (g - z)))
   \<and> (parse_email_date (py_lib parse mktime utcoffset tolower sigma) date_str = Some r
      \<longrightarrow> (\<exists>parsed t. date_str \<noteq> [] \<and> parse date_str = Some parsed
             \<and> py_mktime_tz mktime parsed = Some t \<and> r = t + utcoffset t
             \<and> (cutoff_date \<le> r \<longleftrightarrow> cutoff_date \<le> t + utcoffset t)))"
proof -
  have c1: "parse_email_date lib [] = None" by (simp add: parse_email_date_def)
  have c2: "parsedate_tz lib date_str = None \<longrightarrow> parse_email_date lib date_str = None"
    by (simp add: parse_email_date_def)
  have c3: "date_str \<noteq> [] \<and> parse date_str = Some (y, mo, d, h, mi, sec, Some z)
        \<and> timegm (y, mo, d, h, mi, sec, Some z) = Some g
        \<and> naive_datetime 1 1 1 \<le> (g - z) + utcoffset (g - z)
        \<and> (g - z) + utcoffset (g - z) < naive_datetime 9999 12 31 + 86400
      \<longrightarrow> mktime_tz (py_lib parse mktime utcoffset tolower sigma) (y, mo, d, h, mi, sec, Some z)
            = Some (g - z)
          \<and> parse_email_date (py_lib parse mktime utcoffset tolower sigma) date_str
               = Some ((g - z) + utcoffset (g - z))"
    by (simp add: parse_email_date_def py_lib_def py_mktime_tz_def py_fromtimestamp_def Let_def)
  have c4: "parse_email_date (py_lib parse mktime utcoffset tolower sigma) date_str = Some r
      \<longrightarrow> (\<exists>parsed t. date_str \<noteq> [] \<and> parse date_str = Some parsed
             \<and> py_mktime_tz mktime parsed = Some t \<and> r = t + utcoffset t
             \<and> (cutoff_date \<le> r \<longleftrightarrow> cutoff_date \<le> t + utcoffset t))"
    using parse_email_date_py[of parse mktime utcoffset tolower sigma date_str r] by auto
  from c1 c2 c3 c4 show ?thesis by (intro conjI)
qed

theorem date_parser_gives_local_reading_witness:
  "parsedate_tz lib_plus1 ''not a date'' = None
   \<and> parse_email_date lib_plus1 ''not a date'' = None
   \<and> example_parsedate ''Sun, 01 Jun 2025 01:30:00 +0200'' = Some (2025, 6, 1, 1, 30, 0, Some 7200)
   \<and> timegm (2025, 6, 1, 1, 30, 0, Some 7200) = Some 1748741400
   \<and> naive_datetime 1 1 1 \<le> (1748741400 - 7200) + 3600
   \<and> (1748741400 - 7200) + 3600 < naive_datetime 9999 12 31 + 86400
   \<and> parse_email_date (py_lib example_parsedate (\<lambda>t. None) (\<lambda>t. 3600) example_tolower example_sigma)
        ''Sun, 01 Jun 2025 01:30:00 +0200'' = Some 1748737800
   \<and> parse_email_date (py_lib example_parsedate (\<lambda>t. None) (\<lambda>t. 3600) example_tolower example_sigma)
        ''Sat, 31 May 2025 23:30:00 +0000'' = Some 1748737800
   \<and> (\<exists>parsed t. example_parsedate ''Sat, 31 May 2025 23:30:00 +0000'' = Some parsed
         \<and> py_mktime_tz (\<lambda>t. None) parsed = Some t \<and> 1748737800 = t + 3600)"
proof -
  let ?lib = "py_lib example_parsedate (\<lambda>t. None) (\<lambda>t. 3600) example_tolower example_sigma"
  have n: "parsedate_tz lib_plus1 ''not a date'' = None" by code_simp
  have p: "example_parsedate ''Sun, 01 Jun 2025 01:30:00 +0200''
      = Some (2025, 6, 1, 1, 30, 0, Some 7200)" by code_simp
  have g: "timegm (2025, 6, 1, 1, 30, 0, Some 7200) = Some 1748741400" by code_simp
  have lo: "naive_datetime 1 1 1 \<le> (1748741400 - 7200) + 3600" by code_simp
  have hi: "(1748741400 - 7200) + 3600 < naive_datetime 9999 12 31 + 86400" by code_simp
  have ne: "''Sun, 01 Jun 2025 01:30:00 +0200'' \<noteq> []" by simp
  have q: "parse_email_date ?lib ''Sat, 31 May 2025 23:30:00 +0000'' = Some 1748737800"
    by code_simp
  note t1 = date_parser_gives_local_reading[of lib_plus1 "''not a date''" example_parsedate
      2025 6 1 1 30 0 7200 1748741400 "\<lambda>t. 3600" "\<lambda>t. None"
      example_tolower example_sigma 1748737800]
  note t2 = date_parser_gives_local_reading[of lib_plus1 "''Sat, 31 May 2025 23:30:00 +0000''"
      example_parsedate 2025 6 1 1 30 0 7200 1748741400 "\<lambda>t. 3600" "\<lambda>t. None"
      example_tolower example_sigma 1748737800]
  have a: "parse_email_date lib_plus1 ''not a date'' = None" using t1 n by blast
  have "parse_email_date ?lib ''Sun, 01 Jun 2025 01:30:00 +0200''
      = Some ((1748741400 - 7200) + 3600)"
    using date_parser_gives_local_reading[of lib_plus1 "''Sun, 01 Jun 2025 01:30:00 +0200''"
      example_parsedate 2025 6 1 1 30 0 7200 1748741400 "\<lambda>t. 3600" "\<lambda>t. None"
      example_tolower example_sigma 1748737800]
      ne p g lo hi by blast
  then have b: "parse_email_date ?lib ''Sun, 01 Jun 2025 01:30:00 +0200'' = Some 1748737800"
    by simp
  have c: "\<exists>parsed t. example_parsedate ''Sat, 31 May 2025 23:30:00 +0000'' = Some parsed
         \<and> py_mktime_tz (\<lambda>t. None) parsed = Some t \<and> 1748737800 = t + 3600"
    using t2 q by blast
  from n a p g lo hi b q c show ?thesis by blast
qed

end
